theory Spec2Isabelle
  imports Main "HOL-Library.Word" "HOL-Library.Signed_Division"
begin

section \<open>rss\_everyday: the feed pipeline of main.go\<close>

text \<open>
  The program reads a list of feed subscriptions, fetches each feed, keeps the entries
  whose timestamp lies in a window of whole hours before the current hour, and pushes
  them to a Telegram channel. This theory embeds the functions of \<^verbatim>\<open>main.go\<close>
  that decide the window, the filter and the delivery loop, and proves the properties
  of the specification about them.

  What the Go code takes from its surroundings is a parameter of the model: the clock
  reading of \<^verbatim>\<open>time.Now().UTC()\<close>, the outcome of \<^verbatim>\<open>fp.ParseURL\<close>, the Telegram
  client. Logging and sending are recorded as values the functions return.
\<close>

subsection \<open>Go's time package, as far as main.go uses it\<close>

text \<open>
  A \<^verbatim>\<open>time.Time\<close> is an instant: seconds since the Unix epoch and nanoseconds within
  the second. Every clock reading of the program is in UTC, and \<^verbatim>\<open>Unix()\<close> and
  \<^verbatim>\<open>IsZero()\<close> do not depend on the location, so no zone offset is carried. The
  seconds are unbounded here: Go saturates them at the ends of int64, more than
  10^11 years away from any clock reading.
\<close>

record Time =
  sec :: int
  nsec :: int

type_synonym Duration = "64 word"

definition time_Second :: Duration where
  "time_Second = 1000000000"

definition time_Hour :: Duration where
  "time_Hour = 3600000000000"

text \<open>Seconds from 0001-01-01 00:00:00 UTC, Go's zero Time, to the Unix epoch.\<close>

definition unixToInternal :: int where
  "unixToInternal = 62135596800"

definition Unix :: "Time \<Rightarrow> int" where
  "Unix t = sec t"

definition IsZero :: "Time \<Rightarrow> bool" where
  "IsZero t = (sec t + unixToInternal = 0 \<and> nsec t = 0)"

text \<open>
  \<^verbatim>\<open>t.Add(d)\<close>: the duration is a signed 64-bit count of nanoseconds; Go's \<^verbatim>\<open>/\<close> and
  \<^verbatim>\<open>%\<close> truncate towards zero, and the nanoseconds are carried into the seconds.
\<close>

definition Add :: "Time \<Rightarrow> Duration \<Rightarrow> Time" where
  "Add t d =
     (let dsec = sint d sdiv 1000000000;
          ns = nsec t + sint d smod 1000000000
      in if ns \<ge> 1000000000 then \<lparr>sec = sec t + dsec + 1, nsec = ns - 1000000000\<rparr>
         else if ns < 0 then \<lparr>sec = sec t + dsec - 1, nsec = ns + 1000000000\<rparr>
         else \<lparr>sec = sec t + dsec, nsec = ns\<rparr>)"

text \<open>
  The calendar: the proleptic Gregorian calendar, computed as Go's time package does by
  cutting a day count into cycles of 400, 100, 4 and 1 years. Days are counted from
  0001-01-01; where Go shifts the count to keep it unsigned, the division here rounds
  down, which gives the same cycles.
\<close>

definition isLeap :: "int \<Rightarrow> bool" where
  "isLeap year = (year mod 4 = 0 \<and> (year mod 100 \<noteq> 0 \<or> year mod 400 = 0))"

definition daysBefore :: "int list" where
  "daysBefore = [0, 31, 59, 90, 120, 151, 181, 212, 243, 273, 304, 334, 365]"

definition absYear :: "int \<Rightarrow> int \<times> int" where
  "absYear d0 =
     (let n400 = d0 div 146097;
          d1 = d0 - 146097 * n400;
          c = d1 div 36524;
          n100 = c - c div 4;
          d2 = d1 - 36524 * n100;
          n4 = d2 div 1461;
          d3 = d2 - 1461 * n4;
          q = d3 div 365;
          n1 = q - q div 4;
          d4 = d3 - 365 * n1
      in (400 * n400 + 100 * n100 + 4 * n4 + n1 + 1, d4))"

text \<open>Month (0 for January) and first day of the month, for a day of a common year.\<close>

definition monthOf :: "int \<Rightarrow> int \<times> int" where
  "monthOf day =
     (let month = day div 31;
          endm = daysBefore ! nat (month + 1)
      in if day \<ge> endm then (month + 1, endm) else (month, daysBefore ! nat month))"

definition absDate :: "int \<Rightarrow> int \<times> int \<times> int" where
  "absDate d0 =
     (let (year, yday) = absYear d0 in
      if isLeap year \<and> yday = 31 + 29 - 1 then (year, 2, 29)
      else
        let day = (if isLeap year \<and> yday > 31 + 29 - 1 then yday - 1 else yday);
            (month, begin) = monthOf day
        in (year, month + 1, day - begin + 1))"

definition daysSinceEpoch :: "int \<Rightarrow> int" where
  "daysSinceEpoch year =
     (let y = year - 1;
          n400 = y div 400;
          y1 = y - 400 * n400;
          n100 = y1 div 100;
          y2 = y1 - 100 * n100;
          n4 = y2 div 4;
          y3 = y2 - 4 * n4
      in 146097 * n400 + 36524 * n100 + 1461 * n4 + 365 * y3)"

definition dateToDays :: "int \<Rightarrow> int \<Rightarrow> int \<Rightarrow> int" where
  "dateToDays year month day =
     (let m = month - 1;
          year' = year + m div 12;
          m' = m mod 12
      in daysSinceEpoch year' + daysBefore ! nat m'
           + (if isLeap year' \<and> m' + 1 \<ge> 3 then 1 else 0) + (day - 1))"

definition absDays :: "Time \<Rightarrow> int" where
  "absDays t = (sec t + unixToInternal) div 86400"

definition Year :: "Time \<Rightarrow> int" where
  "Year t = fst (absDate (absDays t))"

definition Month :: "Time \<Rightarrow> int" where
  "Month t = fst (snd (absDate (absDays t)))"

definition Day :: "Time \<Rightarrow> int" where
  "Day t = snd (snd (absDate (absDays t)))"

definition Hour :: "Time \<Rightarrow> int" where
  "Hour t = ((sec t + unixToInternal) mod 86400) div 3600"

definition Minute :: "Time \<Rightarrow> int" where
  "Minute t = ((sec t + unixToInternal) mod 3600) div 60"

definition Second :: "Time \<Rightarrow> int" where
  "Second t = (sec t + unixToInternal) mod 60"

definition Nanosecond :: "Time \<Rightarrow> int" where
  "Nanosecond t = nsec t"

text \<open>
  \<^verbatim>\<open>time.Date(year, month, day, hour, min, sec, nsec, time.UTC)\<close>. Go normalises a
  month outside 1..12 into the year, and carries overflowing nanoseconds, seconds,
  minutes and hours upwards, which the sum below does.
\<close>

definition Date :: "int \<Rightarrow> int \<Rightarrow> int \<Rightarrow> int \<Rightarrow> int \<Rightarrow> int \<Rightarrow> int \<Rightarrow> Time" where
  "Date year month day hour mi s ns =
     \<lparr>sec = dateToDays year month day * 86400 + hour * 3600 + mi * 60 + s
              + ns div 1000000000 - unixToInternal,
      nsec = ns mod 1000000000\<rparr>"

subsection \<open>Configuration and feed data\<close>

text \<open>
  The flags of \<^verbatim>\<open>init()\<close>. \<^verbatim>\<open>tg-channel\<close> and \<^verbatim>\<open>startby\<close> are int64 flags; the
  look-back hours are read signed (\<open>sint\<close>).
\<close>

record Config =
  BotToken :: string
  ChannelID :: "64 word"
  StartBy :: "64 word"
  RSSFilePath :: string
  DebugMode :: bool
  GoroutineNum :: int

text \<open>
  \<^verbatim>\<open>RssInfo\<close>; its field \<^verbatim>\<open>Title\<close> is \<open>rssTitle\<close> here, since \<open>Title\<close> is the
  field of a feed item.
\<close>

record RssInfo =
  rssTitle :: string
  Url :: string
  FullContent :: bool

text \<open>The fields of \<^verbatim>\<open>gofeed.Person\<close>, \<^verbatim>\<open>gofeed.Item\<close> and \<^verbatim>\<open>gofeed.Feed\<close> that main.go reads.\<close>

record Person =
  Name :: string

record Item =
  Title :: string
  Link :: string
  Author :: "Person option"
  Published :: string
  Updated :: string
  PublishedParsed :: "Time option"
  UpdatedParsed :: "Time option"

record Feed =
  Items :: "Item list"

datatype panic =
    IndexOutOfRange
  | NilPointerDereference
  | PanicErr string

subsection \<open>Formatting and logging\<close>

text \<open>
  \<^verbatim>\<open>fmt.Sprintf\<close> for the verbs main.go uses, \<^verbatim>\<open>%s\<close> and \<^verbatim>\<open>%v\<close> on strings and
  on errors (an error is its message).
\<close>

fun Sprintf :: "string \<Rightarrow> string list \<Rightarrow> string" where
  "Sprintf [] args = []"
| "Sprintf [c] args = [c]"
| "Sprintf (c # v # rest) args =
     (if c = CHR ''%'' \<and> (v = CHR ''s'' \<or> v = CHR ''v'') then
        (case args of
           [] \<Rightarrow> ''%!'' @ [v] @ ''(MISSING)'' @ Sprintf rest []
         | a # as \<Rightarrow> a @ Sprintf rest as)
      else c # Sprintf (v # rest) args)"

text \<open>\<^verbatim>\<open>fmt.Sprintln\<close>: the operands separated by spaces, and a newline.\<close>

fun Sprintln :: "string list \<Rightarrow> string" where
  "Sprintln [] = [CHR 0x0A]"
| "Sprintln [a] = a @ [CHR 0x0A]"
| "Sprintln (a # b # rest) = a @ '' '' @ Sprintln (b # rest)"

definition HasSuffix :: "string \<Rightarrow> string \<Rightarrow> bool" where
  "HasSuffix s suffix =
     (length s \<ge> length suffix \<and> drop (length s - length suffix) s = suffix)"

text \<open>
  \<^verbatim>\<open>log.Printf\<close>: the line that is written, without the time stamp the logger puts in
  front; the logger ends the line if the message does not.
\<close>

definition log_Printf :: "string \<Rightarrow> string list \<Rightarrow> string" where
  "log_Printf format v =
     (let s = Sprintf format v in if HasSuffix s [CHR 0x0A] then s else s @ [CHR 0x0A])"

definition debugInfof :: "Config \<Rightarrow> string \<Rightarrow> string list \<Rightarrow> string list" where
  "debugInfof cfg format v =
     (if \<not> DebugMode cfg then []
      else
        let format' = (if \<not> HasSuffix format [CHR 0x0A] then format @ [CHR 0x0A] else format)
        in [log_Printf (''debug: '' @ format') v])"

subsection \<open>The fetcher: getDatetime and GetPostInfo\<close>

text \<open>
  \<^verbatim>\<open>getDatetime\<close>: the first time that is neither nil nor zero; if there is none, the
  last argument. With no argument at all, \<^verbatim>\<open>times[len(times)-1]\<close> panics.
\<close>

fun getDatetime_scan :: "Time option list \<Rightarrow> Time option option" where
  "getDatetime_scan [] = None"
| "getDatetime_scan (d # ds) =
     (if d \<noteq> None \<and> \<not> IsZero (the d) then Some d else getDatetime_scan ds)"

definition getDatetime :: "Time option list \<Rightarrow> panic + Time option" where
  "getDatetime ts =
     (case getDatetime_scan ts of
        Some d \<Rightarrow> Inr d
      | None \<Rightarrow> if ts = [] then Inl IndexOutOfRange else Inr (ts ! (length ts - 1)))"

text \<open>
  Lines 130 to 133 of \<^verbatim>\<open>GetPostInfo\<close>: the window \<open>(start, end)\<close> in Unix seconds.
  \<open>now\<close> is the reading of \<^verbatim>\<open>time.Now().UTC()\<close>. The look-back is
  \<^verbatim>\<open>-(time.Duration(*StartBy) * time.Hour)\<close>, computed in int64, where it wraps.
\<close>

definition GetPostInfo_window :: "Config \<Rightarrow> Time \<Rightarrow> int \<times> int" where
  "GetPostInfo_window cfg now =
     (let startTime = Add now (- (StartBy cfg * time_Hour));
          start = Unix (Date (Year startTime) (Month startTime) (Day startTime)
                          (Hour startTime) 0 0 0);
          endt = Unix (Date (Year now) (Month now) (Day now) (Hour now) 0 0 0)
      in (start, endt))"

text \<open>
  The loop over \<^verbatim>\<open>feed.Items\<close>; the accumulator is \<^verbatim>\<open>msg\<close> and the lines logged so
  far.
\<close>

fun GetPostInfo_items ::
  "Config \<Rightarrow> int \<Rightarrow> int \<Rightarrow> Item list \<Rightarrow> Item list \<times> string list
     \<Rightarrow> panic + (Item list \<times> string list)" where
  "GetPostInfo_items cfg start endt [] acc = Inr acc"
| "GetPostInfo_items cfg start endt (item # rest) (msg, lg) =
     (let lg' = lg @ debugInfof cfg ''Title=%s, Url=%s, Published=%v, Updated=%v''
                       [Title item, Link item, Published item, Updated item]
      in case getDatetime [PublishedParsed item, UpdatedParsed item] of
           Inl p \<Rightarrow> Inl p
         | Inr parseDatetime \<Rightarrow>
             if parseDatetime \<noteq> None \<and> Unix (the parseDatetime) \<ge> start
                \<and> Unix (the parseDatetime) < endt
             then GetPostInfo_items cfg start endt rest (msg @ [item], lg')
             else GetPostInfo_items cfg start endt rest (msg, lg'))"

text \<open>
  \<^verbatim>\<open>GetPostInfo\<close>: \<open>parsed\<close> is what \<^verbatim>\<open>fp.ParseURL(rss.Url)\<close> returned, \<open>Inl\<close> its
  error. The result is \<^verbatim>\<open>msg\<close> and the lines logged.
\<close>

definition GetPostInfo ::
  "Config \<Rightarrow> Time \<Rightarrow> string + Feed \<Rightarrow> RssInfo \<Rightarrow> panic + (Item list \<times> string list)" where
  "GetPostInfo cfg now parsed rss =
     (let (start, endt) = GetPostInfo_window cfg now
      in case parsed of
           Inl err \<Rightarrow> Inr ([], [log_Printf ''parse url err: url=%s, %v'' [Url rss, err]])
         | Inr feed \<Rightarrow> GetPostInfo_items cfg start endt (Items feed) ([], []))"

subsection \<open>The delivery stage: PushPost\<close>

text \<open>
  The Telegram side. \<^verbatim>\<open>tgbotapi.NewBotAPI\<close> answers a token with a client or an
  error; the \<open>n\<close>-th message that reaches Telegram is answered by \<open>SendResult n\<close>,
  \<open>None\<close> for success and \<open>Some err\<close> for a failed send.
\<close>

record BotAPI =
  Token :: string

record Telegram =
  NewBotAPI :: "string \<Rightarrow> string + BotAPI"
  SendResult :: "nat \<Rightarrow> string option"

text \<open>
  What a run does, in order: a line logged, a call of \<^verbatim>\<open>bot.Send\<close> with its receiver,
  chat and text, a \<^verbatim>\<open>time.Sleep\<close>. A \<open>Send\<close> whose receiver is \<open>None\<close> is the call on
  the nil client: it panics before anything is sent.
\<close>

datatype event =
    Log string
  | Send "BotAPI option" "64 word" string
  | Sleep Duration

text \<open>The globals \<^verbatim>\<open>bot\<close> and \<^verbatim>\<open>onceLoader\<close> (whether it has run), and the events so far.\<close>

record State =
  botAPI :: "BotAPI option"
  onceLoader :: bool
  trace :: "event list"

fun isSend :: "event \<Rightarrow> bool" where
  "isSend (Send b c m) = True"
| "isSend e = False"

fun isSleep :: "event \<Rightarrow> bool" where
  "isSleep (Sleep d) = True"
| "isSleep e = False"

fun isLog :: "event \<Rightarrow> bool" where
  "isLog (Log l) = True"
| "isLog e = False"

definition emit :: "event \<Rightarrow> State \<Rightarrow> State" where
  "emit e s = s\<lparr>trace := trace s @ [e]\<rparr>"

definition safeExtractName :: "Person option \<Rightarrow> string" where
  "safeExtractName author =
     (case author of None \<Rightarrow> [] | Some a \<Rightarrow> Sprintf [CHR ''%'', CHR ''s'', CHR 0x0A] [Name a])"

definition makeDisplayMsg :: "Item \<Rightarrow> string" where
  "makeDisplayMsg item =
     Sprintf (''%s%s'' @ [CHR 0x0A] @ ''%s'') [safeExtractName (Author item), Title item, Link item]"

text \<open>The text of the beat message; its first four bytes are the UTF-8 of the emoji.\<close>

definition beatMsg :: string where
  "beatMsg = [CHR 0xF0, CHR 0x9F, CHR 0x98, CHR 0x86] @ ''only beat package, no new msg''"

text \<open>A call of \<^verbatim>\<open>bot.Send\<close> with the text of the beat message.\<close>

fun isBeat :: "event \<Rightarrow> bool" where
  "isBeat (Send b c m) = (m = beatMsg)"
| "isBeat e = False"

definition bot_Send :: "Telegram \<Rightarrow> 64 word \<Rightarrow> string \<Rightarrow> State \<Rightarrow> (panic + string option) \<times> State" where
  "bot_Send tg chat text s =
     (let s' = emit (Send (botAPI s) chat text) s
      in case botAPI s of
           None \<Rightarrow> (Inl NilPointerDereference, s')
         | Some b \<Rightarrow> (Inr (SendResult tg (length (filter isSend (trace s)))), s'))"

text \<open>\<^verbatim>\<open>onceLoader.Do\<close>: the client is built on the first call, and only outside debug mode.\<close>

definition onceLoader_Do :: "Config \<Rightarrow> Telegram \<Rightarrow> State \<Rightarrow> panic option \<times> State" where
  "onceLoader_Do cfg tg s =
     (if onceLoader s then (None, s)
      else if \<not> DebugMode cfg then
        (case NewBotAPI tg (BotToken cfg) of
           Inl err \<Rightarrow> (Some (PanicErr err), s\<lparr>onceLoader := True\<rparr>)
         | Inr b \<Rightarrow> (None, s\<lparr>botAPI := Some b, onceLoader := True\<rparr>))
      else (None, s\<lparr>onceLoader := True\<rparr>))"

text \<open>
  The body of the loop \<^verbatim>\<open>for feed := range tgChan\<close>, for one item: the panic that ends
  the loop, if any, \<^verbatim>\<open>cnt\<close> and the state after it. In debug mode \<^verbatim>\<open>continue\<close> leaves
  the body after the log line. \<^verbatim>\<open>cnt\<close> starts at 0 and only grows, so it is a natural
  number; a Go int would need 2^63 items to overflow.
\<close>

definition PushPost_body ::
  "Config \<Rightarrow> Telegram \<Rightarrow> Item \<Rightarrow> nat \<Rightarrow> State \<Rightarrow> panic option \<times> nat \<times> State" where
  "PushPost_body cfg tg feed cnt s =
     (let info = Sprintln [Title feed, Link feed];
          s1 = emit (Log (log_Printf ''%s'' [info])) s
      in if DebugMode cfg then (None, cnt, s1)
         else
           let displayMsg = makeDisplayMsg feed
           in case bot_Send tg (ChannelID cfg) displayMsg s1 of
                (Inl p, s2) \<Rightarrow> (Some p, cnt, s2)
              | (Inr err, s2) \<Rightarrow>
                  let s3 = (case err of
                              Some e \<Rightarrow> emit (Log (log_Printf (''send tg err: %v'' @ [CHR 0x0A]) [e])) s2
                            | None \<Rightarrow> s2);
                      cnt' = cnt + 1;
                      s4 = (if cnt' mod 10 = 0 then emit (Sleep (2 * time_Second)) s3 else s3)
                  in (None, cnt', s4))"

text \<open>The loop over the items the channel delivers before it is closed.\<close>

fun PushPost_loop ::
  "Config \<Rightarrow> Telegram \<Rightarrow> Item list \<Rightarrow> nat \<Rightarrow> State \<Rightarrow> panic option \<times> nat \<times> State" where
  "PushPost_loop cfg tg [] cnt s = (None, cnt, s)"
| "PushPost_loop cfg tg (feed # rest) cnt s =
     (case PushPost_body cfg tg feed cnt s of
        (Some p, cnt', s') \<Rightarrow> (Some p, cnt', s')
      | (None, cnt', s') \<Rightarrow> PushPost_loop cfg tg rest cnt' s')"

text \<open>
  \<^verbatim>\<open>PushPost\<close> on the items of \<^verbatim>\<open>tgChan\<close>: the panic that ended it, if any, the final
  \<^verbatim>\<open>cnt\<close> and the state.
\<close>

definition PushPost ::
  "Config \<Rightarrow> Telegram \<Rightarrow> Item list \<Rightarrow> State \<Rightarrow> panic option \<times> nat \<times> State" where
  "PushPost cfg tg tgChan s0 =
     (case onceLoader_Do cfg tg s0 of
        (Some p, s1) \<Rightarrow> (Some p, 0, s1)
      | (None, s1) \<Rightarrow>
          (case PushPost_loop cfg tg tgChan 0 s1 of
             (Some p, cnt, s2) \<Rightarrow> (Some p, cnt, s2)
           | (None, cnt, s2) \<Rightarrow>
               if cnt = 0 then
                 (case bot_Send tg (ChannelID cfg) beatMsg s2 of
                    (Inl p, s3) \<Rightarrow> (Some p, cnt, s3)
                  | (Inr (Some e), s3) \<Rightarrow>
                      (None, cnt, emit (Log (log_Printf (''send beat err: %v'' @ [CHR 0x0A]) [e])) s3)
                  | (Inr None, s3) \<Rightarrow> (None, cnt, s3))
               else (None, cnt, s2)))"

text \<open>The state in which \<^verbatim>\<open>main\<close> starts: no client, \<^verbatim>\<open>onceLoader\<close> not yet run.\<close>

definition initState :: State where
  "initState = \<lparr>botAPI = None, onceLoader = False, trace = []\<rparr>"

subsection \<open>Producer, workers and main\<close>

text \<open>
  One fetch: the descriptor a worker took from \<^verbatim>\<open>infoChan\<close>, with the clock reading and
  the parser's answer that its call of \<^verbatim>\<open>GetPostInfo\<close> got.
\<close>

record Fetch =
  info :: RssInfo
  at :: Time
  parsed :: "string + Feed"

text \<open>
  \<^verbatim>\<open>InfoComsumer\<close> on the descriptors one worker receives: the items it sends to
  \<^verbatim>\<open>tgChan\<close>, in order, and the lines it logs.
\<close>

fun InfoComsumer :: "Config \<Rightarrow> Fetch list \<Rightarrow> panic + (Item list \<times> string list)" where
  "InfoComsumer cfg [] = Inr ([], [])"
| "InfoComsumer cfg (f # fs) =
     (case GetPostInfo cfg (at f) (parsed f) (info f) of
        Inl p \<Rightarrow> Inl p
      | Inr (feeds, lg) \<Rightarrow>
          (case InfoComsumer cfg fs of
             Inl p \<Rightarrow> Inl p
           | Inr (out, lg') \<Rightarrow> Inr (feeds @ out, lg @ lg')))"

text \<open>
  The goroutines run in parallel; a run is fixed by who receives what. \<open>pick\<close> names,
  for each descriptor that \<^verbatim>\<open>InfoProducer\<close> sends, the worker that receives it;
  \<open>order\<close> names, for each item that arrives on \<^verbatim>\<open>tgChan\<close>, the worker that sent it.
  \<open>deal\<close> gives every worker its descriptors in the producer's order, \<open>merge_by\<close> the
  sequence on the channel; both are \<open>None\<close> when the schedule fits no run.
\<close>

definition deal :: "nat list \<Rightarrow> nat \<Rightarrow> 'a list \<Rightarrow> 'a list list option" where
  "deal pick n xs =
     (if length pick = length xs \<and> (\<forall>w \<in> set pick. w < n)
      then Some (map (\<lambda>w. map fst (filter (\<lambda>(x, j). j = w) (zip xs pick))) [0..<n])
      else None)"

fun merge_by :: "nat list \<Rightarrow> 'a list list \<Rightarrow> 'a list option" where
  "merge_by [] xss = (if \<forall>xs \<in> set xss. xs = [] then Some [] else None)"
| "merge_by (w # ws) xss =
     (if w < length xss then
        (case xss ! w of
           [] \<Rightarrow> None
         | x # xs \<Rightarrow> map_option ((#) x) (merge_by ws (xss[w := xs])))
      else None)"

text \<open>
  \<^verbatim>\<open>main\<close>: \<^verbatim>\<open>wg.Add\<close> panics on a negative number of workers; with no worker
  \<^verbatim>\<open>wg.Wait\<close> returns at once and \<^verbatim>\<open>tgChan\<close> is closed empty; otherwise every
  descriptor is received by some worker before the last worker ends. The result is the
  sequence of items on \<^verbatim>\<open>tgChan\<close> and what \<^verbatim>\<open>PushPost\<close> made of it, or the panic of
  \<^verbatim>\<open>main\<close> or of a worker.
\<close>

definition main ::
  "Config \<Rightarrow> Telegram \<Rightarrow> nat list \<Rightarrow> nat list \<Rightarrow> Fetch list
     \<Rightarrow> (panic + (Item list \<times> panic option \<times> nat \<times> State)) option" where
  "main cfg tg pick order fetches =
     (if GoroutineNum cfg < 0 then Some (Inl (PanicErr ''sync: negative WaitGroup counter''))
      else if GoroutineNum cfg = 0 then Some (Inr ([], PushPost cfg tg [] initState))
      else
        (case deal pick (nat (GoroutineNum cfg)) fetches of
           None \<Rightarrow> None
         | Some shares \<Rightarrow>
             (let outs = map (InfoComsumer cfg) shares
              in case filter isl outs of
                   Inl p # ps \<Rightarrow> Some (Inl p)
                 | Inr r # ps \<Rightarrow> None
                 | [] \<Rightarrow>
                     (case merge_by order (map (\<lambda>out. fst (projr out)) outs) of
                        None \<Rightarrow> None
                      | Some tgChan \<Rightarrow> Some (Inr (tgChan, PushPost cfg tg tgChan initState))))))"

subsection \<open>The specification's window\<close>

text \<open>
  The specification's words for the window: \<open>start = truncateToHour (now - h hours)\<close>
  and \<open>end = truncateToHour now\<close>, where truncation zeroes the minutes, the seconds
  and the part below the second. These two definitions follow the specification, not
  the code.
\<close>

definition truncateToHour :: "Time \<Rightarrow> Time" where
  "truncateToHour t = \<lparr>sec = sec t - (Minute t * 60 + Second t), nsec = 0\<rparr>"

definition hoursBefore :: "Time \<Rightarrow> int \<Rightarrow> Time" where
  "hoursBefore t h = t\<lparr>sec := sec t - h * 3600\<rparr>"

text \<open>A \<^verbatim>\<open>time.Time\<close> keeps its nanoseconds below one second.\<close>

definition validTime :: "Time \<Rightarrow> bool" where
  "validTime t = (0 \<le> nsec t \<and> nsec t < 1000000000)"

subsection \<open>Example inputs\<close>

text \<open>
  Concrete inputs on which the theorems below are run: a clock reading of
  2023-11-14 22:13:20 UTC, the default look-back of three hours, and feed entries by
  their parsed time stamps.
\<close>

definition exNow :: Time where
  "exNow = \<lparr>sec = 1700000000, nsec = 0\<rparr>"

definition zeroTime :: Time where
  "zeroTime = \<lparr>sec = - 62135596800, nsec = 0\<rparr>"

definition exCfg :: Config where
  "exCfg = \<lparr>BotToken = ''token'', ChannelID = 42, StartBy = 3, RSSFilePath = ''rss.json'',
            DebugMode = False, GoroutineNum = 5\<rparr>"

definition exItem :: "string \<Rightarrow> Time option \<Rightarrow> Time option \<Rightarrow> Item" where
  "exItem name p u =
     \<lparr>Title = name, Link = ''https://example.org/'' @ name, Author = None,
      Published = [], Updated = [], PublishedParsed = p, UpdatedParsed = u\<rparr>"

definition exRss :: "string \<Rightarrow> RssInfo" where
  "exRss name = \<lparr>rssTitle = name, Url = ''https://example.org/'' @ name @ ''.xml'',
                 FullContent = False\<rparr>"

text \<open>A Telegram side that builds the client and accepts every message.\<close>

definition exTg :: Telegram where
  "exTg = \<lparr>NewBotAPI = (\<lambda>token. Inr \<lparr>Token = token\<rparr>), SendResult = (\<lambda>n. None)\<rparr>"

text \<open>Two fetches: one whose parser fails, one whose feed has two entries in the window.\<close>

definition exFailed :: Fetch where
  "exFailed = \<lparr>info = exRss ''a'', at = exNow, parsed = Inl ''timeout''\<rparr>"

definition exGood :: Fetch where
  "exGood = \<lparr>info = exRss ''b'', at = exNow,
             parsed = Inr \<lparr>Items = [exItem ''old'' (Some \<lparr>sec = 1699988399, nsec = 0\<rparr>) None,
                                    exItem ''one'' (Some \<lparr>sec = 1699990000, nsec = 0\<rparr>) None,
                                    exItem ''two'' None (Some \<lparr>sec = 1699995000, nsec = 0\<rparr>)]\<rparr>\<rparr>"

section \<open>Properties\<close>

subsection \<open>The calendar\<close>

lemma div_bounds:
  fixes a b :: int
  assumes "0 < b"
  shows "b * (a div b) \<le> a" "a < b * (a div b) + b"
proof -
  have "a = b * (a div b) + a mod b" by simp
  moreover have "0 \<le> a mod b" "a mod b < b" using assms by simp_all
  ultimately show "b * (a div b) \<le> a" "a < b * (a div b) + b" by linarith+
qed

lemma monthOf_k:
  fixes day k :: int
  assumes "day div 31 = k" "0 \<le> day" "day \<le> 364" "monthOf day = (m, b)"
  shows "0 \<le> m \<and> m \<le> 11 \<and> b = daysBefore ! nat m \<and> b \<le> day \<and> (2 \<le> m \<longleftrightarrow> 59 \<le> day)"
proof -
  have kb: "31 * k \<le> day" "day < 31 * k + 31"
    using div_bounds [of 31 day] assms(1) by linarith+
  then have "0 \<le> k" "k \<le> 11" using assms(2,3) by linarith+
  then have "k = 0 \<or> k = 1 \<or> k = 2 \<or> k = 3 \<or> k = 4 \<or> k = 5 \<or> k = 6 \<or> k = 7
     \<or> k = 8 \<or> k = 9 \<or> k = 10 \<or> k = 11" by presburger
  then show ?thesis
    using kb assms(3,4) unfolding monthOf_def Let_def assms(1) daysBefore_def
    by (elim disjE) (auto split: if_splits)
qed


lemma div_eqI:
  fixes a b k :: int
  assumes "0 < b" "b * k \<le> a" "a < b * k + b"
  shows "a div b = k"
proof -
  have "a = b * k + (a - b * k)" by simp
  moreover have "0 \<le> a - b * k" "a - b * k < b" using assms by linarith+
  ultimately show ?thesis by (metis int_div_pos_eq)
qed

lemma mod_eqI:
  fixes a b k r :: int
  assumes "a = b * k + r" "0 \<le> r" "r < b"
  shows "a mod b = r"
  using assms by (metis int_mod_pos_eq)

lemma absYear_decomp:
  fixes d0 :: int
  defines "n400 \<equiv> d0 div 146097"
  defines "d1 \<equiv> d0 - 146097 * n400"
  defines "c \<equiv> d1 div 36524"
  defines "n100 \<equiv> c - c div 4"
  defines "d2 \<equiv> d1 - 36524 * n100"
  defines "n4 \<equiv> d2 div 1461"
  defines "d3 \<equiv> d2 - 1461 * n4"
  defines "q \<equiv> d3 div 365"
  defines "n1 \<equiv> q - q div 4"
  defines "d4 \<equiv> d3 - 365 * n1"
  shows "0 \<le> n100 \<and> n100 \<le> 3 \<and> 0 \<le> n4 \<and> n4 \<le> 24 \<and> 0 \<le> n1 \<and> n1 \<le> 3
         \<and> 0 \<le> d4 \<and> d4 \<le> 365 \<and> (d4 = 365 \<longrightarrow> n1 = 3 \<and> (n4 \<noteq> 24 \<or> n100 = 3))"
proof -
  have d1: "0 \<le> d1" "d1 < 146097"
    using div_bounds [of 146097 d0] unfolding d1_def n400_def by linarith+
  have cb: "36524 * c \<le> d1" "d1 < 36524 * c + 36524"
    using div_bounds [of 36524 d1] unfolding c_def by linarith+
  have c: "0 \<le> c" "c \<le> 4" using cb d1 by linarith+
  have c4: "4 * (c div 4) \<le> c" "c < 4 * (c div 4) + 4"
    using div_bounds [of 4 c] by linarith+
  have n100: "0 \<le> n100" "n100 \<le> 3" "c = 4 \<or> n100 = c" "c = 4 \<longrightarrow> n100 = 3"
    using c c4 unfolding n100_def by linarith+
  have d2: "0 \<le> d2" "d2 \<le> 36524" "d2 = 36524 \<longrightarrow> n100 = 3"
    using d1 c cb n100 unfolding d2_def by auto
  have n4b: "1461 * n4 \<le> d2" "d2 < 1461 * n4 + 1461"
    using div_bounds [of 1461 d2] unfolding n4_def by linarith+
  have n4: "0 \<le> n4" "n4 \<le> 24" using d2 n4b by linarith+
  have d3: "0 \<le> d3" "d3 \<le> 1460" "d3 = 1460 \<longrightarrow> n4 \<noteq> 24 \<or> n100 = 3"
    using d2 n4b unfolding d3_def by auto
  have qb: "365 * q \<le> d3" "d3 < 365 * q + 365"
    using div_bounds [of 365 d3] unfolding q_def by linarith+
  have q: "0 \<le> q" "q \<le> 4" using d3 qb by linarith+
  have q4: "4 * (q div 4) \<le> q" "q < 4 * (q div 4) + 4"
    using div_bounds [of 4 q] by linarith+
  have n1: "0 \<le> n1" "n1 \<le> 3" "q = 4 \<or> n1 = q" "q = 4 \<longrightarrow> n1 = 3"
    using q q4 unfolding n1_def by linarith+
  have d4: "0 \<le> d4" "d4 \<le> 365" "d4 = 365 \<longrightarrow> n1 = 3 \<and> d3 = 1460"
    using d3 q qb n1 unfolding d4_def by auto
  show ?thesis using n100 n4 n1 d4 d3 by blast
qed

lemma daysSinceEpoch_cycles:
  fixes n400 n100 n4 n1 :: int
  assumes "0 \<le> n100" "n100 \<le> 3" "0 \<le> n4" "n4 \<le> 24" "0 \<le> n1" "n1 \<le> 3"
  shows "daysSinceEpoch (400 * n400 + 100 * n100 + 4 * n4 + n1 + 1)
           = 146097 * n400 + 36524 * n100 + 1461 * n4 + 365 * n1"
proof -
  let ?y = "400 * n400 + 100 * n100 + 4 * n4 + n1"
  have a: "?y div 400 = n400" using assms by (intro div_eqI) linarith+
  have b: "(?y - 400 * n400) div 100 = n100" using assms by (intro div_eqI) linarith+
  have c: "(?y - 400 * n400 - 100 * n100) div 4 = n4" using assms by (intro div_eqI) linarith+
  show ?thesis unfolding daysSinceEpoch_def Let_def using a b c by simp
qed

lemma isLeap_cycles:
  fixes n400 n100 n4 n1 :: int
  assumes "0 \<le> n100" "n100 \<le> 3" "0 \<le> n4" "n4 \<le> 24" "0 \<le> n1" "n1 \<le> 3"
  shows "isLeap (400 * n400 + 100 * n100 + 4 * n4 + n1 + 1)
           \<longleftrightarrow> n1 = 3 \<and> (n4 \<noteq> 24 \<or> n100 = 3)"
proof -
  let ?y = "400 * n400 + 100 * n100 + 4 * n4 + n1 + 1"
  let ?r100 = "4 * n4 + n1 + 1"
  let ?r400 = "100 * n100 + 4 * n4 + n1 + 1"
  have m4: "?y mod 4 = (if n1 = 3 then 0 else n1 + 1)"
    by (rule mod_eqI [where k = "100 * n400 + 25 * n100 + n4 + (if n1 = 3 then 1 else 0)"])
       (use assms in \<open>auto\<close>)
  have m100: "?y mod 100 = (if ?r100 = 100 then 0 else ?r100)"
    by (rule mod_eqI [where k = "4 * n400 + n100 + (if ?r100 = 100 then 1 else 0)"])
       (use assms in \<open>auto\<close>)
  have m400: "?y mod 400 = (if ?r400 = 400 then 0 else ?r400)"
    by (rule mod_eqI [where k = "n400 + (if ?r400 = 400 then 1 else 0)"])
       (use assms in \<open>auto\<close>)
  have e100: "?r100 = 100 \<longleftrightarrow> n4 = 24 \<and> n1 = 3" using assms by linarith
  have e400: "?r400 = 400 \<longleftrightarrow> n100 = 3 \<and> n4 = 24 \<and> n1 = 3" using assms by linarith
  have p100: "0 < ?r100" and p400: "0 < ?r400" using assms by linarith+
  show ?thesis
    unfolding isLeap_def m4 m100 m400 using e100 e400 p100 p400 assms by auto
qed

lemma absYear_sound:
  assumes "absYear d0 = (year, yday)"
  shows "daysSinceEpoch year + yday = d0 \<and> 0 \<le> yday
         \<and> yday \<le> (if isLeap year then 365 else 364)"
proof -
  define n400 where "n400 = d0 div 146097"
  define d1 where "d1 = d0 - 146097 * n400"
  define c where "c = d1 div 36524"
  define n100 where "n100 = c - c div 4"
  define d2 where "d2 = d1 - 36524 * n100"
  define n4 where "n4 = d2 div 1461"
  define d3 where "d3 = d2 - 1461 * n4"
  define q where "q = d3 div 365"
  define n1 where "n1 = q - q div 4"
  define d4 where "d4 = d3 - 365 * n1"
  note defs = n400_def d1_def c_def n100_def d2_def n4_def d3_def q_def n1_def d4_def
  have b: "0 \<le> n100 \<and> n100 \<le> 3 \<and> 0 \<le> n4 \<and> n4 \<le> 24 \<and> 0 \<le> n1 \<and> n1 \<le> 3
         \<and> 0 \<le> d4 \<and> d4 \<le> 365 \<and> (d4 = 365 \<longrightarrow> n1 = 3 \<and> (n4 \<noteq> 24 \<or> n100 = 3))"
    unfolding defs by (rule absYear_decomp)
  have "absYear d0 = (400 * n400 + 100 * n100 + 4 * n4 + n1 + 1, d4)"
    unfolding absYear_def Let_def defs by (rule refl)
  with assms have y: "year = 400 * n400 + 100 * n100 + 4 * n4 + n1 + 1" and yd: "yday = d4"
    by simp_all
  have dse: "daysSinceEpoch year = 146097 * n400 + 36524 * n100 + 1461 * n4 + 365 * n1"
    unfolding y using b by (intro daysSinceEpoch_cycles) simp_all
  have lp: "isLeap year \<longleftrightarrow> n1 = 3 \<and> (n4 \<noteq> 24 \<or> n100 = 3)"
    unfolding y using b by (intro isLeap_cycles) simp_all
  have sum: "146097 * n400 + 36524 * n100 + 1461 * n4 + 365 * n1 + d4 = d0"
    unfolding d4_def d3_def d2_def d1_def by simp
  have le: "yday \<le> (if isLeap year then 365 else 364)"
  proof (cases "d4 = 365")
    case True
    then show ?thesis using b lp yd by simp
  next
    case False
    then have "d4 \<le> 364" using b by linarith
    then show ?thesis using yd by simp
  qed
  show ?thesis using dse sum b yd le by simp
qed

lemma dateToDays_month:
  fixes m :: int
  assumes "0 \<le> m" "m \<le> 11"
  shows "dateToDays y (m + 1) d
           = daysSinceEpoch y + daysBefore ! nat m + (if isLeap y \<and> 2 \<le> m then 1 else 0) + (d - 1)"
proof -
  have a: "m div 12 = 0" using assms by (intro div_eqI) linarith+
  have b: "m mod 12 = m" using assms by (intro mod_eqI [where k = 0]) linarith+
  show ?thesis unfolding dateToDays_def Let_def by (simp add: a b)
qed

lemma absDate_roundtrip:
  assumes "absDate d0 = (y, m, dd)"
  shows "dateToDays y m dd = d0"
proof -
  obtain year yday where ay: "absYear d0 = (year, yday)" by (cases "absYear d0")
  note s = absYear_sound [OF ay]
  show ?thesis
  proof (cases "isLeap year \<and> yday = 59")
    case True
    then have "(y, m, dd) = (year, 2, 29)" using assms ay unfolding absDate_def by simp
    then have e: "y = year" "m = 1 + 1" "dd = 29" by simp_all
    show ?thesis unfolding e using dateToDays_month [of 1 year 29] True s
      by (simp add: daysBefore_def)
  next
    case False
    define day where "day = (if isLeap year \<and> yday > 59 then yday - 1 else yday)"
    obtain mo b where mo: "monthOf day = (mo, b)" by (cases "monthOf day")
    have "absDate d0 = (year, mo + 1, day - b + 1)"
    proof (cases "isLeap year \<and> yday > 59")
      case True
      then have d: "day = yday - 1" unfolding day_def by simp
      show ?thesis unfolding absDate_def ay using False True mo [unfolded d]
        by (simp add: Let_def d)
    next
      case F: False
      then have d: "day = yday" unfolding day_def by simp
      show ?thesis unfolding absDate_def ay using False F mo [unfolded d]
        by (cases "isLeap year") (simp_all add: Let_def d)
    qed
    then have r: "(y, m, dd) = (year, mo + 1, day - b + 1)" using assms by simp
    have day: "0 \<le> day" "day \<le> 364"
      using s False unfolding day_def by (auto split: if_splits)
    have mk: "0 \<le> mo \<and> mo \<le> 11 \<and> b = daysBefore ! nat mo \<and> b \<le> day \<and> (2 \<le> mo \<longleftrightarrow> 59 \<le> day)"
      using monthOf_k [OF refl day mo] .
    have e: "y = year" "m = mo + 1" "dd = day - b + 1" using r by simp_all
    have "dateToDays year (mo + 1) (day - b + 1)
            = daysSinceEpoch year + day + (if isLeap year \<and> 2 \<le> mo then 1 else 0)"
      using mk by (simp add: dateToDays_month)
    also have "\<dots> = daysSinceEpoch year + yday"
      using mk False unfolding day_def by (auto split: if_splits)
    finally show ?thesis unfolding e using s by simp
  qed
qed

subsection \<open>Truncation to the hour and the look-back\<close>

lemma Date_truncates:
  "Unix (Date (Year t) (Month t) (Day t) (Hour t) 0 0 0) = sec t - sec t mod 3600"
proof -
  define S where "S = sec t + unixToInternal"
  obtain y m d where a: "absDate (absDays t) = (y, m, d)" by (cases "absDate (absDays t)")
  have r: "dateToDays (Year t) (Month t) (Day t) = S div 86400"
    using absDate_roundtrip [OF a] a unfolding Year_def Month_def Day_def absDays_def S_def
    by simp
  have h: "Hour t = (S mod 86400) div 3600" unfolding Hour_def S_def ..
  have m1: "S mod 86400 mod 3600 = S mod 3600" by (simp add: mod_mod_cancel)
  have "unixToInternal = 3600 * 17259888" unfolding unixToInternal_def by simp
  then have m2: "S mod 3600 = sec t mod 3600" unfolding S_def by (metis mod_mult_self2)
  have e1: "S = 86400 * (S div 86400) + S mod 86400" by simp
  have e2: "S mod 86400 = 3600 * ((S mod 86400) div 3600) + S mod 86400 mod 3600" by simp
  have "Unix (Date (Year t) (Month t) (Day t) (Hour t) 0 0 0)
          = (S div 86400) * 86400 + ((S mod 86400) div 3600) * 3600 - unixToInternal"
    unfolding Unix_def Date_def r h by simp
  also have "\<dots> = S - S mod 3600 - unixToInternal" using e1 e2 m1 by linarith
  also have "\<dots> = sec t - sec t mod 3600" unfolding m2 unfolding S_def by simp
  finally show ?thesis .
qed


lemma offset_mod_3600: "(s + unixToInternal) mod 3600 = s mod 3600"
proof -
  have "unixToInternal = 3600 * 17259888" unfolding unixToInternal_def by simp
  then show ?thesis by (metis mod_mult_self2)
qed

lemma truncateToHour_sec: "sec (truncateToHour t) = sec t - sec t mod 3600"
proof -
  define S where "S = sec t + unixToInternal"
  have e: "S mod 3600 = 60 * (S mod 3600 div 60) + S mod 3600 mod 60" by simp
  have m: "S mod 3600 mod 60 = S mod 60" by (simp add: mod_mod_cancel)
  have "Minute t * 60 + Second t = S mod 3600"
    unfolding Minute_def Second_def S_def [symmetric] using e m by linarith
  then show ?thesis unfolding truncateToHour_def S_def offset_mod_3600 by simp
qed

lemma truncateToHour_fields:
  "Year (truncateToHour t) = Year t \<and> Month (truncateToHour t) = Month t
   \<and> Day (truncateToHour t) = Day t \<and> Hour (truncateToHour t) = Hour t
   \<and> Minute (truncateToHour t) = 0 \<and> Second (truncateToHour t) = 0
   \<and> Nanosecond (truncateToHour t) = 0"
proof -
  define S where "S = sec t + unixToInternal"
  define T where "T = sec (truncateToHour t) + unixToInternal"
  have T: "T = S - S mod 3600"
    unfolding T_def S_def truncateToHour_sec offset_mod_3600 by simp
  have T': "T = 3600 * (S div 3600)" unfolding T by (simp add: minus_mod_eq_mult_div)
  have d: "T div 86400 = S div 86400"
  proof (rule div_eqI)
    have a: "86400 * (S div 86400) \<le> S" "S < 86400 * (S div 86400) + 86400"
      using div_bounds [of 86400 S] by simp_all
    have b: "3600 * (S div 3600) \<le> S" "S < 3600 * (S div 3600) + 3600"
      using div_bounds [of 3600 S] by simp_all
    show "T < 86400 * (S div 86400) + 86400" using a b unfolding T' by linarith
    have "86400 * (S div 86400) = 3600 * (24 * (S div 86400))" by simp
    moreover have "24 * (S div 86400) \<le> S div 3600"
    proof -
      have "3600 * (24 * (S div 86400)) < 3600 * (S div 3600) + 3600" using a b by linarith
      then show ?thesis by linarith
    qed
    ultimately show "86400 * (S div 86400) \<le> T" unfolding T' by linarith
  qed simp
  have days: "absDays (truncateToHour t) = absDays t"
    unfolding absDays_def using d unfolding T_def S_def .
  have m: "T mod 86400 = S mod 86400 - S mod 3600"
  proof -
    have "T = 86400 * (T div 86400) + T mod 86400" "S = 86400 * (S div 86400) + S mod 86400"
      by simp_all
    then show ?thesis using d T by linarith
  qed
  have h: "(T mod 86400) div 3600 = (S mod 86400) div 3600"
  proof -
    have x: "S mod 86400 mod 3600 = S mod 3600" by (simp add: mod_mod_cancel)
    have "T mod 86400 = 3600 * ((S mod 86400) div 3600)"
      unfolding m x [symmetric] by (simp add: minus_mod_eq_mult_div)
    then show ?thesis by simp
  qed
  have mi: "T mod 3600 = 0" unfolding T' by simp
  have se: "T mod 60 = 0"
  proof -
    have "T = 60 * (60 * (S div 3600))" unfolding T' by simp
    then show ?thesis by (metis mod_mult_self1_is_0)
  qed
  show ?thesis
    unfolding Year_def Month_def Day_def days Hour_def Minute_def Second_def Nanosecond_def
    using h mi se unfolding T_def S_def by (simp add: truncateToHour_def)
qed


lemma sdiv_smod_billion:
  fixes m :: int
  shows "(m * 1000000000) sdiv 1000000000 = m" "(m * 1000000000) smod 1000000000 = 0"
  by (simp_all add: signed_divide_int_def signed_modulo_int_def abs_mult sgn_mult
        sgn_mult_abs)

lemma lookback_sint:
  fixes h :: "64 word"
  assumes "- 2562047 \<le> sint h" "sint h \<le> 2562047"
  shows "sint (- (h * time_Hour)) = - (sint h * 3600) * 1000000000"
proof -
  have th: "sint time_Hour = 3600000000000" unfolding time_Hour_def by simp
  have "sint (h * time_Hour) = signed_take_bit 63 (sint h * 3600000000000)"
    by (simp add: sint_word_mult th)
  also have "\<dots> = sint h * 3600000000000"
    using assms by (intro signed_take_bit_int_eq_self) simp_all
  finally have p: "sint (h * time_Hour) = sint h * 3600000000000" .
  have "sint (- (h * time_Hour)) = signed_take_bit 63 (- (sint h * 3600000000000))"
    by (simp add: sint_word_minus p)
  also have "\<dots> = - (sint h * 3600000000000)"
    using assms by (intro signed_take_bit_int_eq_self) simp_all
  finally show ?thesis by simp
qed

lemma Add_hours:
  fixes h :: "64 word"
  assumes "validTime t" "- 2562047 \<le> sint h" "sint h \<le> 2562047"
  shows "Add t (- (h * time_Hour)) = hoursBefore t (sint h)"
  using assms(1)
  unfolding Add_def lookback_sint [OF assms(2,3)] sdiv_smod_billion Let_def
    hoursBefore_def validTime_def
  by simp

lemma sdiv_billion_bounds:
  fixes d :: "64 word"
  shows "- 9223372036 \<le> sint d sdiv 1000000000" "sint d sdiv 1000000000 \<le> 9223372036"
proof -
  have r: "- (2 ^ 63) \<le> sint d" "sint d < 2 ^ 63"
    using sint_ge [of d] sint_lt [of d] by simp_all
  then have a: "\<bar>sint d\<bar> \<le> 9223372036854775808" by simp
  have "1000000000 * (\<bar>sint d\<bar> div 1000000000) \<le> \<bar>sint d\<bar>"
    using div_bounds [of 1000000000 "\<bar>sint d\<bar>"] by simp
  then have b: "\<bar>sint d\<bar> div 1000000000 \<le> 9223372036" using a by linarith
  have c: "0 \<le> \<bar>sint d\<bar> div 1000000000" by (simp add: pos_imp_zdiv_nonneg_iff)
  have e: "sint d sdiv 1000000000 = sgn (sint d) * (\<bar>sint d\<bar> div 1000000000)"
    by (simp add: signed_divide_int_def)
  show "- 9223372036 \<le> sint d sdiv 1000000000" "sint d sdiv 1000000000 \<le> 9223372036"
    unfolding e using b c by (cases "sint d" rule: linorder_cases [of _ 0]; simp)+
qed

lemma Add_sec_bounds:
  "sec t - 9223372037 \<le> sec (Add t d)" "sec (Add t d) \<le> sec t + 9223372037"
  using sdiv_billion_bounds [of d] unfolding Add_def Let_def by (simp_all split: if_splits)

lemma GetPostInfo_window_eq:
  "GetPostInfo_window cfg now =
     (let s = sec (Add now (- (StartBy cfg * time_Hour)))
      in (s - s mod 3600, sec now - sec now mod 3600))"
  unfolding GetPostInfo_window_def Let_def Date_truncates ..

subsection \<open>The fetcher\<close>

lemma getDatetime_pair:
  "getDatetime [p, u] = Inr (if p \<noteq> None \<and> \<not> IsZero (the p) then p else u)"
  by (simp add: getDatetime_def)

lemma GetPostInfo_items_filter:
  "GetPostInfo_items cfg start endt items (msg, lg) =
     Inr (msg @ filter (\<lambda>item. \<exists>t. getDatetime [PublishedParsed item, UpdatedParsed item] = Inr (Some t)
                                  \<and> start \<le> Unix t \<and> Unix t < endt) items,
          lg @ concat (map (\<lambda>item. debugInfof cfg ''Title=%s, Url=%s, Published=%v, Updated=%v''
                                    [Title item, Link item, Published item, Updated item]) items))"
proof (induction items arbitrary: msg lg)
  case Nil
  then show ?case by simp
next
  case (Cons item rest)
  show ?case
    by (cases "getDatetime [PublishedParsed item, UpdatedParsed item]")
       (auto simp: getDatetime_pair Cons.IH Let_def)
qed

lemma GetPostInfo_window_start_after_zero:
  assumes "0 \<le> sec now" "GetPostInfo_window cfg now = (start, endt)"
  shows "- unixToInternal < start"
proof -
  define s where "s = sec (Add now (- (StartBy cfg * time_Hour)))"
  have st: "start = s - s mod 3600"
    using assms(2) unfolding GetPostInfo_window_eq s_def Let_def by simp
  have "sec now - 9223372037 \<le> s" unfolding s_def by (rule Add_sec_bounds)
  moreover have "s mod 3600 < 3600" by simp
  ultimately show ?thesis using assms(1) unfolding st unixToInternal_def by linarith
qed

lemmas window_eval = GetPostInfo_window_eq Add_def time_Hour_def
  signed_divide_int_def signed_modulo_int_def

text \<open>
  Claim C5. When the parser succeeds, the result of \<^verbatim>\<open>GetPostInfo\<close> is the list of the
  feed's entries, in the parser's order, filtered by: the effective time stamp (the
  published one, else the updated one, as \<^verbatim>\<open>getDatetime\<close> chooses) is not nil, is not
  the zero time, and satisfies \<open>start \<le> t < end\<close> for the window computed from the
  clock. So an entry is in the result if and only if that holds. The code does not test
  for the zero time itself: with a clock at or after the Unix epoch the window starts
  later than the zero time, whatever the look-back flag is, since an int64 duration
  spans less than 293 years.
\<close>

theorem fetch_includes_iff_in_window:
  assumes "0 \<le> sec now" "GetPostInfo_window cfg now = (start, endt)"
  shows "\<exists>lg. GetPostInfo cfg now (Inr feed) rss =
           Inr (filter (\<lambda>item. \<exists>t. getDatetime [PublishedParsed item, UpdatedParsed item] = Inr (Some t)
                                    \<and> \<not> IsZero t \<and> start \<le> Unix t \<and> Unix t < endt) (Items feed), lg)"
proof -
  have z: "- unixToInternal < start" using assms by (rule GetPostInfo_window_start_after_zero)
  have "\<not> IsZero t" if "start \<le> Unix t" for t
    using that z unfolding IsZero_def Unix_def by linarith
  then have "(\<lambda>item. \<exists>t. getDatetime [PublishedParsed item, UpdatedParsed item] = Inr (Some t)
                    \<and> start \<le> Unix t \<and> Unix t < endt)
           = (\<lambda>item. \<exists>t. getDatetime [PublishedParsed item, UpdatedParsed item] = Inr (Some t)
                    \<and> \<not> IsZero t \<and> start \<le> Unix t \<and> Unix t < endt)"
    by blast
  then have "filter (\<lambda>item. \<exists>t. getDatetime [PublishedParsed item, UpdatedParsed item] = Inr (Some t)
                    \<and> start \<le> Unix t \<and> Unix t < endt) (Items feed)
           = filter (\<lambda>item. \<exists>t. getDatetime [PublishedParsed item, UpdatedParsed item] = Inr (Some t)
                    \<and> \<not> IsZero t \<and> start \<le> Unix t \<and> Unix t < endt) (Items feed)"
    by (rule arg_cong)
  then show ?thesis
    unfolding GetPostInfo_def assms(2) by (simp add: GetPostInfo_items_filter)
qed

theorem fetch_includes_iff_in_window_witness:
  "0 \<le> sec exNow \<and> GetPostInfo_window exCfg exNow = (1699988400, 1699999200)
   \<and> (\<exists>lg. GetPostInfo exCfg exNow
        (Inr \<lparr>Items = [exItem ''old'' (Some \<lparr>sec = 1699988399, nsec = 0\<rparr>) None,
                        exItem ''first'' (Some \<lparr>sec = 1699988400, nsec = 0\<rparr>) None,
                        exItem ''updated'' (Some zeroTime) (Some \<lparr>sec = 1699999199, nsec = 5\<rparr>),
                        exItem ''late'' None (Some \<lparr>sec = 1699999200, nsec = 0\<rparr>),
                        exItem ''zero'' None (Some zeroTime),
                        exItem ''none'' None None]\<rparr>) (exRss ''a'')
        = Inr ([exItem ''first'' (Some \<lparr>sec = 1699988400, nsec = 0\<rparr>) None,
                exItem ''updated'' (Some zeroTime) (Some \<lparr>sec = 1699999199, nsec = 5\<rparr>)], lg))"
proof -
  have n: "0 \<le> sec exNow" by (simp add: exNow_def)
  have w: "GetPostInfo_window exCfg exNow = (1699988400, 1699999200)"
    by (simp add: window_eval exCfg_def exNow_def)
  let ?feed = "\<lparr>Items = [exItem ''old'' (Some \<lparr>sec = 1699988399, nsec = 0\<rparr>) None,
                        exItem ''first'' (Some \<lparr>sec = 1699988400, nsec = 0\<rparr>) None,
                        exItem ''updated'' (Some zeroTime) (Some \<lparr>sec = 1699999199, nsec = 5\<rparr>),
                        exItem ''late'' None (Some \<lparr>sec = 1699999200, nsec = 0\<rparr>),
                        exItem ''zero'' None (Some zeroTime),
                        exItem ''none'' None None]\<rparr>"
  show ?thesis
    using fetch_includes_iff_in_window [OF n w, where feed = ?feed and rss = "exRss ''a''"] n w
    by (simp add: getDatetime_pair exItem_def zeroTime_def IsZero_def Unix_def unixToInternal_def)
qed

subsection \<open>The window\<close>

text \<open>
  Claim C7, as amended. For every clock reading \<open>now\<close> and every look-back of \<open>h\<close> hours
  with \<open>0 \<le> h \<le> 2562047\<close>, the window is
  \<open>start = truncateToHour (now - h hours)\<close> and \<open>end = truncateToHour now\<close>, and
  truncation keeps the calendar year, month, day and hour of a time and sets its
  minutes, seconds and nanoseconds to zero. 2562047 is the largest number of hours whose
  nanoseconds fit \<^verbatim>\<open>time.Duration\<close>, an int64.
\<close>

theorem window_is_truncated_lookback:
  assumes "validTime now" "0 \<le> sint (StartBy cfg)" "sint (StartBy cfg) \<le> 2562047"
  shows "GetPostInfo_window cfg now =
           (Unix (truncateToHour (hoursBefore now (sint (StartBy cfg)))),
            Unix (truncateToHour now))
         \<and> (\<forall>t. Year (truncateToHour t) = Year t \<and> Month (truncateToHour t) = Month t
                \<and> Day (truncateToHour t) = Day t \<and> Hour (truncateToHour t) = Hour t
                \<and> Minute (truncateToHour t) = 0 \<and> Second (truncateToHour t) = 0
                \<and> Nanosecond (truncateToHour t) = 0)"
proof -
  have "- 2562047 \<le> sint (StartBy cfg)" using assms(2) by linarith
  then have a: "Add now (- (StartBy cfg * time_Hour)) = hoursBefore now (sint (StartBy cfg))"
    using assms by (intro Add_hours)
  have "GetPostInfo_window cfg now =
           (Unix (truncateToHour (hoursBefore now (sint (StartBy cfg)))),
            Unix (truncateToHour now))"
    unfolding GetPostInfo_window_eq a Let_def Unix_def truncateToHour_sec ..
  then show ?thesis using truncateToHour_fields by blast
qed

theorem window_is_truncated_lookback_witness:
  "validTime exNow \<and> 0 \<le> sint (StartBy exCfg) \<and> sint (StartBy exCfg) \<le> 2562047
   \<and> GetPostInfo_window exCfg exNow = (1699988400, 1699999200)
   \<and> Hour (truncateToHour exNow) = 22 \<and> Minute (truncateToHour exNow) = 0"
proof -
  have v: "validTime exNow" by (simp add: validTime_def exNow_def)
  have h: "0 \<le> sint (StartBy exCfg)" "sint (StartBy exCfg) \<le> 2562047"
    by (simp_all add: exCfg_def)
  have e: "Hour exNow = 22" by (simp add: Hour_def exNow_def unixToInternal_def)
  have u: "Unix (truncateToHour (hoursBefore exNow (sint (StartBy exCfg)))) = 1699988400"
          "Unix (truncateToHour exNow) = 1699999200"
    by (simp_all add: Unix_def truncateToHour_sec hoursBefore_def exNow_def exCfg_def)
  show ?thesis
    using window_is_truncated_lookback [OF v h] v h e u by simp
qed

text \<open>
  The claim as stated, for every \<open>h \<ge> 0\<close>, fails at \<open>h = 2562048\<close>:
  \<^verbatim>\<open>time.Duration(*StartBy) * time.Hour\<close> wraps around, the look-back turns into a step
  of 292 years forwards, and \<open>start\<close> is in the year 2316 where the claim puts it in 1731.
\<close>

theorem window_lookback_overflow_counterexample:
  "validTime exNow \<and> 0 \<le> sint (StartBy (exCfg\<lparr>StartBy := 2562048\<rparr>))
   \<and> fst (GetPostInfo_window (exCfg\<lparr>StartBy := 2562048\<rparr>) exNow)
       \<noteq> Unix (truncateToHour (hoursBefore exNow (sint (StartBy (exCfg\<lparr>StartBy := 2562048\<rparr>)))))
   \<and> fst (GetPostInfo_window (exCfg\<lparr>StartBy := 2562048\<rparr>) exNow) = 10923368400
   \<and> Unix (truncateToHour (hoursBefore exNow (sint (StartBy (exCfg\<lparr>StartBy := 2562048\<rparr>)))))
       = - 7523373600"
  by (simp add: window_eval validTime_def exCfg_def exNow_def Unix_def truncateToHour_sec
        hoursBefore_def)

text \<open>
  Claim C8, as amended. For every look-back \<open>h\<close> with \<open>-2562047 \<le> h \<le> 0\<close> the window
  computation gives \<open>start \<ge> end\<close>, and \<^verbatim>\<open>GetPostInfo\<close> returns no item and does not
  panic, whatever the parser answered.
\<close>

theorem nonpositive_lookback_gives_no_items:
  assumes "validTime now" "- 2562047 \<le> sint (StartBy cfg)" "sint (StartBy cfg) \<le> 0"
    and "GetPostInfo_window cfg now = (start, endt)"
  shows "endt \<le> start \<and> (\<exists>lg. GetPostInfo cfg now outcome rss = Inr ([], lg))"
proof -
  define h where "h = sint (StartBy cfg)"
  have "sint (StartBy cfg) \<le> 2562047" using assms(3) by linarith
  then have a: "Add now (- (StartBy cfg * time_Hour)) = hoursBefore now h"
    unfolding h_def using assms(1,2) by (intro Add_hours)
  have st: "start = (sec now - h * 3600) - (sec now - h * 3600) mod 3600"
    and en: "endt = sec now - sec now mod 3600"
    using assms(4) unfolding GetPostInfo_window_eq a Let_def hoursBefore_def by simp_all
  have "sec now div 3600 \<le> (sec now - h * 3600) div 3600"
    using assms(3) unfolding h_def by (intro zdiv_mono1) simp_all
  then have le: "endt \<le> start"
    unfolding st en by (simp add: minus_mod_eq_mult_div)
  have "\<exists>lg. GetPostInfo cfg now outcome rss = Inr ([], lg)"
  proof (cases outcome)
    case (Inl err)
    then show ?thesis unfolding GetPostInfo_def assms(4) by simp
  next
    case (Inr feed)
    have "filter (\<lambda>item. \<exists>t. getDatetime [PublishedParsed item, UpdatedParsed item] = Inr (Some t)
                    \<and> start \<le> Unix t \<and> Unix t < endt) (Items feed) = []"
      using le by (auto simp: filter_empty_conv)
    then show ?thesis
      unfolding GetPostInfo_def assms(4) Inr by (simp add: GetPostInfo_items_filter)
  qed
  with le show ?thesis ..
qed

theorem nonpositive_lookback_gives_no_items_witness:
  "validTime exNow \<and> - 2562047 \<le> sint (StartBy (exCfg\<lparr>StartBy := - 1\<rparr>))
   \<and> sint (StartBy (exCfg\<lparr>StartBy := - 1\<rparr>)) \<le> 0
   \<and> GetPostInfo_window (exCfg\<lparr>StartBy := - 1\<rparr>) exNow = (1700002800, 1699999200)
   \<and> (\<exists>lg. GetPostInfo (exCfg\<lparr>StartBy := - 1\<rparr>) exNow
              (Inr \<lparr>Items = [exItem ''seen'' (Some \<lparr>sec = 1699999199, nsec = 0\<rparr>) None]\<rparr>)
              (exRss ''a'') = Inr ([], lg))"
proof -
  let ?cfg = "exCfg\<lparr>StartBy := - 1\<rparr>"
  have v: "validTime exNow" by (simp add: validTime_def exNow_def)
  have h: "- 2562047 \<le> sint (StartBy ?cfg)" "sint (StartBy ?cfg) \<le> 0"
    by (simp_all add: exCfg_def)
  have w: "GetPostInfo_window ?cfg exNow = (1700002800, 1699999200)"
    by (simp add: window_eval exCfg_def exNow_def)
  show ?thesis
    using nonpositive_lookback_gives_no_items [OF v h w] v h w by simp
qed

text \<open>
  The claim as stated, for every \<open>h \<le> 0\<close>, fails at \<open>h = -2562048\<close>: the product wraps
  around to a look-back of 292 years, \<open>start\<close> lies before \<open>end\<close>, and an entry published
  one second before \<open>end\<close> is returned.
\<close>

theorem negative_lookback_overflow_counterexample:
  "sint (StartBy (exCfg\<lparr>StartBy := - 2562048\<rparr>)) \<le> 0
   \<and> GetPostInfo_window (exCfg\<lparr>StartBy := - 2562048\<rparr>) exNow = (- 7523373600, 1699999200)
   \<and> GetPostInfo (exCfg\<lparr>StartBy := - 2562048\<rparr>) exNow
        (Inr \<lparr>Items = [exItem ''seen'' (Some \<lparr>sec = 1699999199, nsec = 0\<rparr>) None]\<rparr>)
        (exRss ''a'')
       = Inr ([exItem ''seen'' (Some \<lparr>sec = 1699999199, nsec = 0\<rparr>) None], [])"
proof -
  let ?cfg = "exCfg\<lparr>StartBy := - 2562048\<rparr>"
  have w: "GetPostInfo_window ?cfg exNow = (- 7523373600, 1699999200)"
    by (simp add: window_eval exCfg_def exNow_def)
  have d: "\<not> DebugMode ?cfg" by (simp add: exCfg_def)
  have s: "sint (StartBy ?cfg) \<le> 0" by (simp add: exCfg_def)
  show ?thesis
    using s unfolding w GetPostInfo_def
    by (simp add: getDatetime_pair debugInfof_def d exItem_def IsZero_def Unix_def
          unixToInternal_def)
qed

text \<open>
  Claim C10. For every window \<open>start\<close>, \<open>end\<close>: an entry whose published and updated
  time stamps are both nil has the effective time stamp nil and is not in the result;
  and when \<^verbatim>\<open>getDatetime\<close> falls through to its last argument (no argument is both
  non-nil and non-zero), the entry can be in the result only if that last argument, the
  updated time stamp, is present and is the zero time. The result of a fetch is the
  result of this loop for the window computed from the clock.
\<close>

theorem entry_without_timestamps_is_excluded:
  assumes "GetPostInfo_items cfg start endt items ([], []) = Inr (msg, lg)"
  shows "(PublishedParsed item = None \<and> UpdatedParsed item = None
            \<longrightarrow> getDatetime [PublishedParsed item, UpdatedParsed item] = Inr None
                \<and> item \<notin> set msg)
       \<and> (getDatetime_scan [PublishedParsed item, UpdatedParsed item] = None \<and> item \<in> set msg
            \<longrightarrow> (\<exists>t. UpdatedParsed item = Some t \<and> IsZero t))
       \<and> GetPostInfo cfg' now (Inr feed) rss
           = GetPostInfo_items cfg' (fst (GetPostInfo_window cfg' now))
               (snd (GetPostInfo_window cfg' now)) (Items feed) ([], [])"
proof -
  have m: "msg = filter (\<lambda>item. \<exists>t. getDatetime [PublishedParsed item, UpdatedParsed item] = Inr (Some t)
                    \<and> start \<le> Unix t \<and> Unix t < endt) items"
    using assms by (simp add: GetPostInfo_items_filter)
  have g: "GetPostInfo cfg' now (Inr feed) rss
           = GetPostInfo_items cfg' (fst (GetPostInfo_window cfg' now))
               (snd (GetPostInfo_window cfg' now)) (Items feed) ([], [])"
    by (simp add: GetPostInfo_def split: prod.splits)
  show ?thesis unfolding m using g by (auto simp: getDatetime_pair split: if_splits)
qed

theorem entry_without_timestamps_is_excluded_witness:
  "GetPostInfo_items exCfg (- 62135596800) (- 62135593200)
      [exItem ''none'' None None, exItem ''zero'' None (Some zeroTime)] ([], [])
     = Inr ([exItem ''zero'' None (Some zeroTime)], [])
   \<and> getDatetime [None, None] = Inr None
   \<and> exItem ''none'' None None \<notin> set [exItem ''zero'' None (Some zeroTime)]
   \<and> getDatetime_scan [None, Some zeroTime] = None
   \<and> exItem ''zero'' None (Some zeroTime) \<in> set [exItem ''zero'' None (Some zeroTime)]
   \<and> IsZero zeroTime"
proof -
  let ?items = "[exItem ''none'' None None, exItem ''zero'' None (Some zeroTime)]"
  let ?msg = "[exItem ''zero'' None (Some zeroTime)]"
  have d: "\<not> DebugMode exCfg" by (simp add: exCfg_def)
  have r: "GetPostInfo_items exCfg (- 62135596800) (- 62135593200) ?items ([], [])
             = Inr (?msg, [])"
    by (simp add: getDatetime_pair debugInfof_def d exItem_def IsZero_def Unix_def
          unixToInternal_def zeroTime_def)
  show ?thesis
    using entry_without_timestamps_is_excluded [OF r, of "exItem ''none'' None None"]
          entry_without_timestamps_is_excluded [OF r, of "exItem ''zero'' None (Some zeroTime)"] r
    by (simp add: exItem_def IsZero_def zeroTime_def unixToInternal_def)
qed

subsection \<open>The delivery loop\<close>

lemma Sprintf_display:
  "Sprintf (''%s%s'' @ [CHR 0x0A] @ ''%s'') [a, t, l] = a @ t @ [CHR 0x0A] @ l"
  by simp

lemma makeDisplayMsg_eq:
  "makeDisplayMsg item = safeExtractName (Author item) @ Title item @ [CHR 0x0A] @ Link item"
  unfolding makeDisplayMsg_def Sprintf_display ..

lemma makeDisplayMsg_not_beat: "makeDisplayMsg item \<noteq> beatMsg"
proof
  assume "makeDisplayMsg item = beatMsg"
  then have "CHR 0x0A \<in> set beatMsg" unfolding makeDisplayMsg_eq [symmetric, of item]
    by (metis makeDisplayMsg_eq in_set_conv_decomp append.assoc append_Cons)
  then show False by (simp add: beatMsg_def)
qed



lemma PushPost_body_debug:
  assumes "DebugMode cfg"
  shows "PushPost_body cfg tg feed cnt s =
           (None, cnt, emit (Log (log_Printf ''%s'' [Sprintln [Title feed, Link feed]])) s)"
  using assms unfolding PushPost_body_def Let_def by simp

lemma PushPost_loop_debug:
  assumes "DebugMode cfg"
  shows "PushPost_loop cfg tg items cnt s =
           (None, cnt,
            s\<lparr>trace := trace s
                 @ map (\<lambda>feed. Log (log_Printf ''%s'' [Sprintln [Title feed, Link feed]])) items\<rparr>)"
proof (induction items arbitrary: s)
  case Nil
  show ?case by simp
next
  case (Cons feed rest)
  show ?case
    by (simp add: PushPost_body_debug [OF assms] Cons.IH emit_def)
qed

text \<open>What one turn of the loop appends to the trace outside debug mode.\<close>

lemma PushPost_body_live:
  assumes "\<not> DebugMode cfg" "botAPI s = Some b"
  shows "PushPost_body cfg tg feed cnt s =
           (None, Suc cnt,
            s\<lparr>trace := trace s
                 @ [Log (log_Printf ''%s'' [Sprintln [Title feed, Link feed]]),
                    Send (Some b) (ChannelID cfg) (makeDisplayMsg feed)]
                 @ (case SendResult tg (length (filter isSend (trace s))) of
                      Some e \<Rightarrow> [Log (log_Printf (''send tg err: %v'' @ [CHR 0x0A]) [e])]
                    | None \<Rightarrow> [])
                 @ (if Suc cnt mod 10 = 0 then [Sleep (2 * time_Second)] else [])\<rparr>)"
  using assms unfolding PushPost_body_def bot_Send_def emit_def Let_def
  by (simp split: option.splits)

lemma PushPost_loop_live:
  assumes "\<not> DebugMode cfg" "botAPI s = Some b"
  shows "\<exists>ext. PushPost_loop cfg tg items cnt s = (None, cnt + length items, s\<lparr>trace := trace s @ ext\<rparr>)
           \<and> filter isSend ext = map (\<lambda>feed. Send (Some b) (ChannelID cfg) (makeDisplayMsg feed)) items
           \<and> filter isSleep ext
               = replicate ((cnt + length items) div 10 - cnt div 10) (Sleep (2 * time_Second))
           \<and> (\<forall>i < length items. \<forall>e. SendResult tg (length (filter isSend (trace s)) + i) = Some e
                 \<longrightarrow> Log (log_Printf (''send tg err: %v'' @ [CHR 0x0A]) [e]) \<in> set ext)"
  using assms(2)
proof (induction items arbitrary: s cnt)
  case Nil
  show ?case by (intro exI [of _ "[]"]) simp
next
  case (Cons feed rest)
  define n where "n = length (filter isSend (trace s))"
  define one where "one =
     [Log (log_Printf ''%s'' [Sprintln [Title feed, Link feed]]),
      Send (Some b) (ChannelID cfg) (makeDisplayMsg feed)]
     @ (case SendResult tg n of
          Some e \<Rightarrow> [Log (log_Printf (''send tg err: %v'' @ [CHR 0x0A]) [e])]
        | None \<Rightarrow> [])
     @ (if Suc cnt mod 10 = 0 then [Sleep (2 * time_Second)] else [])"
  define s1 where "s1 = s\<lparr>trace := trace s @ one\<rparr>"
  have body: "PushPost_body cfg tg feed cnt s = (None, Suc cnt, s1)"
    unfolding s1_def one_def n_def using PushPost_body_live [OF assms(1) Cons.prems] .
  have b1: "botAPI s1 = Some b" unfolding s1_def using Cons.prems by simp
  have sends1: "filter isSend one = [Send (Some b) (ChannelID cfg) (makeDisplayMsg feed)]"
    unfolding one_def by (simp split: option.splits)
  have sleeps1: "filter isSleep one = (if Suc cnt mod 10 = 0 then [Sleep (2 * time_Second)] else [])"
    unfolding one_def by (simp split: option.splits)
  have n1: "length (filter isSend (trace s1)) = Suc n"
    unfolding s1_def n_def by (simp add: sends1)
  from Cons.IH [OF b1, of "Suc cnt"] obtain ext where
    run: "PushPost_loop cfg tg rest (Suc cnt) s1
            = (None, Suc cnt + length rest, s1\<lparr>trace := trace s1 @ ext\<rparr>)"
    and sends: "filter isSend ext = map (\<lambda>feed. Send (Some b) (ChannelID cfg) (makeDisplayMsg feed)) rest"
    and sleeps: "filter isSleep ext
               = replicate ((Suc cnt + length rest) div 10 - Suc cnt div 10) (Sleep (2 * time_Second))"
    and errs: "\<forall>i < length rest. \<forall>e. SendResult tg (Suc n + i) = Some e
                 \<longrightarrow> Log (log_Printf (''send tg err: %v'' @ [CHR 0x0A]) [e]) \<in> set ext"
    unfolding n1 by blast
  have r: "PushPost_loop cfg tg (feed # rest) cnt s
            = (None, cnt + length (feed # rest), s\<lparr>trace := trace s @ (one @ ext)\<rparr>)"
    using body run unfolding s1_def by simp
  have a: "filter isSend (one @ ext)
             = map (\<lambda>feed. Send (Some b) (ChannelID cfg) (makeDisplayMsg feed)) (feed # rest)"
    using sends1 sends by simp
  have mono: "Suc cnt div 10 \<le> (Suc cnt + length rest) div 10" by (rule div_le_mono) simp
  have step: "Suc cnt div 10 = cnt div 10 + (if Suc cnt mod 10 = 0 then 1 else 0)"
    by (simp add: div_Suc)
  have c: "filter isSleep (one @ ext)
             = replicate ((cnt + length (feed # rest)) div 10 - cnt div 10) (Sleep (2 * time_Second))"
  proof -
    have e: "(cnt + length (feed # rest)) div 10 - cnt div 10
               = (Suc cnt div 10 - cnt div 10) + ((Suc cnt + length rest) div 10 - Suc cnt div 10)"
      using mono step by simp
    have "filter isSleep one = replicate (Suc cnt div 10 - cnt div 10) (Sleep (2 * time_Second))"
      unfolding sleeps1 step by simp
    then show ?thesis unfolding e replicate_add using sleeps by simp
  qed
  have d: "\<forall>i < length (feed # rest). \<forall>e. SendResult tg (length (filter isSend (trace s)) + i) = Some e
             \<longrightarrow> Log (log_Printf (''send tg err: %v'' @ [CHR 0x0A]) [e]) \<in> set (one @ ext)"
  proof (intro allI impI)
    fix i e
    assume i: "i < length (feed # rest)"
      and e: "SendResult tg (length (filter isSend (trace s)) + i) = Some e"
    show "Log (log_Printf (''send tg err: %v'' @ [CHR 0x0A]) [e]) \<in> set (one @ ext)"
    proof (cases i)
      case 0
      then have "SendResult tg n = Some e" using e unfolding n_def by simp
      then show ?thesis unfolding one_def by simp
    next
      case (Suc j)
      then have "j < length rest" "SendResult tg (Suc n + j) = Some e"
        using i e unfolding n_def by simp_all
      then show ?thesis using errs by simp
    qed
  qed
  show ?case using r a c d by blast
qed

lemma onceLoader_Do_debug:
  assumes "DebugMode cfg"
  shows "onceLoader_Do cfg tg initState = (None, initState\<lparr>onceLoader := True\<rparr>)"
  using assms unfolding onceLoader_Do_def initState_def by simp

lemma onceLoader_Do_live:
  assumes "\<not> DebugMode cfg" "NewBotAPI tg (BotToken cfg) = Inr b"
  shows "onceLoader_Do cfg tg initState = (None, initState\<lparr>botAPI := Some b, onceLoader := True\<rparr>)"
  using assms unfolding onceLoader_Do_def initState_def by simp

lemma PushPost_debug:
  assumes "DebugMode cfg"
  shows "PushPost cfg tg items initState =
           (Some NilPointerDereference, 0,
            \<lparr>botAPI = None, onceLoader = True,
             trace = map (\<lambda>feed. Log (log_Printf ''%s'' [Sprintln [Title feed, Link feed]])) items
                       @ [Send None (ChannelID cfg) beatMsg]\<rparr>)"
  unfolding PushPost_def onceLoader_Do_debug [OF assms] PushPost_loop_debug [OF assms]
  by (simp add: bot_Send_def emit_def initState_def)

lemma PushPost_live:
  assumes "\<not> DebugMode cfg" "NewBotAPI tg (BotToken cfg) = Inr b"
  shows "\<exists>ext. PushPost cfg tg items initState =
           (None, length items,
            \<lparr>botAPI = Some b, onceLoader = True,
             trace = ext
               @ (if items = [] then
                    [Send (Some b) (ChannelID cfg) beatMsg]
                    @ (case SendResult tg 0 of
                         Some e \<Rightarrow> [Log (log_Printf (''send beat err: %v'' @ [CHR 0x0A]) [e])]
                       | None \<Rightarrow> [])
                  else [])\<rparr>)
         \<and> (items = [] \<longrightarrow> ext = [])
         \<and> filter isSend ext = map (\<lambda>feed. Send (Some b) (ChannelID cfg) (makeDisplayMsg feed)) items
         \<and> filter isSleep ext = replicate (length items div 10) (Sleep (2 * time_Second))
         \<and> (\<forall>i < length items. \<forall>e. SendResult tg i = Some e
               \<longrightarrow> Log (log_Printf (''send tg err: %v'' @ [CHR 0x0A]) [e]) \<in> set ext)"
proof -
  define s1 where "s1 = initState\<lparr>botAPI := Some b, onceLoader := True\<rparr>"
  have b1: "botAPI s1 = Some b" and t1: "trace s1 = []"
    unfolding s1_def initState_def by simp_all
  from PushPost_loop_live [OF assms(1) b1, of tg items 0] obtain ext where
    run: "PushPost_loop cfg tg items 0 s1 = (None, length items, s1\<lparr>trace := ext\<rparr>)"
    and sends: "filter isSend ext = map (\<lambda>feed. Send (Some b) (ChannelID cfg) (makeDisplayMsg feed)) items"
    and sleeps: "filter isSleep ext = replicate (length items div 10) (Sleep (2 * time_Second))"
    and errs: "\<forall>i < length items. \<forall>e. SendResult tg i = Some e
                 \<longrightarrow> Log (log_Printf (''send tg err: %v'' @ [CHR 0x0A]) [e]) \<in> set ext"
    unfolding t1 by auto
  have e0: "items = [] \<longrightarrow> ext = []"
    using run by (auto simp: s1_def initState_def)
  have "PushPost cfg tg items initState =
           (None, length items,
            \<lparr>botAPI = Some b, onceLoader = True,
             trace = ext
               @ (if items = [] then
                    [Send (Some b) (ChannelID cfg) beatMsg]
                    @ (case SendResult tg 0 of
                         Some e \<Rightarrow> [Log (log_Printf (''send beat err: %v'' @ [CHR 0x0A]) [e])]
                       | None \<Rightarrow> [])
                  else [])\<rparr>)"
  proof -
    have once: "onceLoader_Do cfg tg initState = (None, s1)"
      unfolding s1_def by (rule onceLoader_Do_live [OF assms])
    have fin: "s1\<lparr>trace := ext\<rparr> = \<lparr>botAPI = Some b, onceLoader = True, trace = ext\<rparr>"
      unfolding s1_def initState_def by simp
    show ?thesis
    proof (cases "items = []")
      case True
      then have x: "ext = []" using e0 by simp
      show ?thesis
        unfolding PushPost_def once using True
        by (simp add: bot_Send_def emit_def s1_def initState_def x split: option.splits)
    next
      case False
      then show ?thesis
        by (simp add: PushPost_def once run fin)
    qed
  qed
  then show ?thesis using e0 sends sleeps errs by blast
qed

lemma isBeat_isSend: "isBeat e \<Longrightarrow> isSend e"
  by (cases e) simp_all

lemma filter_isBeat_sends:
  assumes "filter isSend ext = map (\<lambda>feed. Send b c (makeDisplayMsg feed)) items"
  shows "filter isBeat ext = []"
    and "filter (\<lambda>e. isSend e \<and> \<not> isBeat e) ext = map (\<lambda>feed. Send b c (makeDisplayMsg feed)) items"
proof -
  have a: "filter isBeat (filter isSend ext) = []"
    unfolding assms by (simp add: filter_empty_conv makeDisplayMsg_not_beat)
  have "filter isBeat (filter isSend ext) = filter isBeat ext"
    by (induction ext) (auto dest: isBeat_isSend)
  with a show "filter isBeat ext = []" by simp
  have "filter (\<lambda>e. isSend e \<and> \<not> isBeat e) ext = filter (\<lambda>e. \<not> isBeat e) (filter isSend ext)"
    by (induction ext) auto
  also have "\<dots> = map (\<lambda>feed. Send b c (makeDisplayMsg feed)) items"
    unfolding assms by (simp add: filter_id_conv makeDisplayMsg_not_beat)
  finally show "filter (\<lambda>e. isSend e \<and> \<not> isBeat e) ext = map (\<lambda>feed. Send b c (makeDisplayMsg feed)) items" .
qed

subsection \<open>Debug mode\<close>

text \<open>
  Claim C3. In debug mode \<^verbatim>\<open>onceLoader.Do\<close> leaves the client \<^verbatim>\<open>bot\<close> nil; the loop
  never counts an item, so \<^verbatim>\<open>cnt\<close> is 0 when the channel is closed, whatever it
  delivered; the beat branch then calls \<^verbatim>\<open>Send\<close> on the nil client, and the run ends
  in a nil pointer dereference. The trace of such a run is one log line per item and
  that call.
\<close>

theorem debug_run_sends_beat_on_nil_client:
  assumes "DebugMode cfg"
  shows "onceLoader_Do cfg tg initState = (None, initState\<lparr>onceLoader := True\<rparr>)
       \<and> botAPI (initState\<lparr>onceLoader := True\<rparr>) = None
       \<and> PushPost cfg tg items initState =
           (Some NilPointerDereference, 0,
            \<lparr>botAPI = None, onceLoader = True,
             trace = map (\<lambda>feed. Log (log_Printf ''%s'' [Sprintln [Title feed, Link feed]])) items
                       @ [Send None (ChannelID cfg) beatMsg]\<rparr>)"
  using onceLoader_Do_debug [OF assms] PushPost_debug [OF assms]
  by (simp add: initState_def)

theorem debug_run_sends_beat_on_nil_client_witness:
  "DebugMode (exCfg\<lparr>DebugMode := True\<rparr>)
   \<and> PushPost (exCfg\<lparr>DebugMode := True\<rparr>) exTg
        [exItem ''a'' None None, exItem ''b'' None None] initState =
       (Some NilPointerDereference, 0,
        \<lparr>botAPI = None, onceLoader = True,
         trace = [Log (''a https://example.org/a'' @ [CHR 0x0A]),
                  Log (''b https://example.org/b'' @ [CHR 0x0A]),
                  Send None 42 beatMsg]\<rparr>)"
proof -
  have d: "DebugMode (exCfg\<lparr>DebugMode := True\<rparr>)" by simp
  show ?thesis
    using debug_run_sends_beat_on_nil_client [OF d, of exTg
        "[exItem ''a'' None None, exItem ''b'' None None]"]
    by (simp add: exItem_def exCfg_def log_Printf_def HasSuffix_def)
qed

text \<open>
  Claim C1 says that in debug mode no heartbeat send is attempted. The code attempts it:
  on the empty channel, in debug mode, \<^verbatim>\<open>PushPost\<close> calls \<^verbatim>\<open>bot.Send\<close> with the beat
  message on the nil client and panics.
\<close>

theorem debug_heartbeat_is_attempted:
  "PushPost (exCfg\<lparr>DebugMode := True\<rparr>) exTg [] initState =
     (Some NilPointerDereference, 0,
      \<lparr>botAPI = None, onceLoader = True, trace = [Send None 42 beatMsg]\<rparr>)"
  by (simp add: PushPost_debug exCfg_def)

text \<open>
  Claim C2, as amended. For the same sequence of items, a live execution (the client
  was built) increments the counter once per item and pauses two seconds after every
  10th item, so \<open>n div 10\<close> times for \<open>n\<close> items; a debug execution increments nothing,
  never pauses and sends no item: its counter is 0 when the channel is closed.
\<close>

theorem debug_run_counts_nothing:
  assumes "DebugMode dbg" "\<not> DebugMode live" "NewBotAPI tg (BotToken live) = Inr b"
    and "PushPost dbg tg items initState = (pd, cd, sd)"
    and "PushPost live tg items initState = (pl, cl, sl)"
  shows "cd = 0 \<and> filter isSleep (trace sd) = []
       \<and> filter (\<lambda>e. isSend e \<and> \<not> isBeat e) (trace sd) = []
       \<and> cl = length items
       \<and> filter isSleep (trace sl) = replicate (length items div 10) (Sleep (2 * time_Second))"
proof -
  have d: "cd = 0" "filter isSleep (trace sd) = []"
          "filter (\<lambda>e. isSend e \<and> \<not> isBeat e) (trace sd) = []"
    using assms(4) unfolding PushPost_debug [OF assms(1)] by auto
  from PushPost_live [OF assms(2,3), of items] assms(5)
  have "cl = length items
        \<and> filter isSleep (trace sl) = replicate (length items div 10) (Sleep (2 * time_Second))"
    by (auto split: option.splits)
  with d show ?thesis by simp
qed

theorem debug_run_counts_nothing_witness:
  "DebugMode (exCfg\<lparr>DebugMode := True\<rparr>) \<and> \<not> DebugMode exCfg
   \<and> NewBotAPI exTg (BotToken exCfg) = Inr \<lparr>Token = ''token''\<rparr>
   \<and> fst (snd (PushPost (exCfg\<lparr>DebugMode := True\<rparr>) exTg
                 (replicate 25 (exItem ''a'' None None)) initState)) = 0
   \<and> fst (snd (PushPost exCfg exTg (replicate 25 (exItem ''a'' None None)) initState)) = 25
   \<and> filter isSleep (trace (snd (snd (PushPost exCfg exTg
         (replicate 25 (exItem ''a'' None None)) initState))))
       = [Sleep (2 * time_Second), Sleep (2 * time_Second)]"
proof -
  let ?items = "replicate 25 (exItem ''a'' None None)"
  have a: "DebugMode (exCfg\<lparr>DebugMode := True\<rparr>)" "\<not> DebugMode exCfg"
    "NewBotAPI exTg (BotToken exCfg) = Inr \<lparr>Token = ''token''\<rparr>"
    by (simp_all add: exCfg_def exTg_def)
  obtain pd cd sd where d: "PushPost (exCfg\<lparr>DebugMode := True\<rparr>) exTg ?items initState = (pd, cd, sd)"
    by (metis prod_cases3)
  obtain pl cl sl where l: "PushPost exCfg exTg ?items initState = (pl, cl, sl)"
    by (metis prod_cases3)
  have "replicate (25 div 10) (Sleep (2 * time_Second)) = [Sleep (2 * time_Second), Sleep (2 * time_Second)]"
    by (simp add: numeral_2_eq_2)
  then show ?thesis
    using debug_run_counts_nothing [OF a d l] a unfolding d l by simp
qed

text \<open>
  The claim as stated, that a debug execution performs the same counter increments and
  pacing pauses as a live one, fails on ten items: the live run counts to 10 and pauses
  once, the debug run counts nothing and never pauses, because \<^verbatim>\<open>continue\<close> leaves the
  loop body before \<^verbatim>\<open>cnt++\<close>.
\<close>

theorem debug_run_counter_counterexample:
  "fst (snd (PushPost (exCfg\<lparr>DebugMode := True\<rparr>) exTg
               (replicate 10 (exItem ''a'' None None)) initState))
     \<noteq> fst (snd (PushPost exCfg exTg (replicate 10 (exItem ''a'' None None)) initState))
   \<and> fst (snd (PushPost (exCfg\<lparr>DebugMode := True\<rparr>) exTg
               (replicate 10 (exItem ''a'' None None)) initState)) = 0
   \<and> fst (snd (PushPost exCfg exTg (replicate 10 (exItem ''a'' None None)) initState)) = 10
   \<and> filter isSleep (trace (snd (snd (PushPost (exCfg\<lparr>DebugMode := True\<rparr>) exTg
         (replicate 10 (exItem ''a'' None None)) initState)))) = []
   \<and> filter isSleep (trace (snd (snd (PushPost exCfg exTg
         (replicate 10 (exItem ''a'' None None)) initState)))) = [Sleep (2 * time_Second)]"
proof -
  let ?items = "replicate 10 (exItem ''a'' None None)"
  have a: "DebugMode (exCfg\<lparr>DebugMode := True\<rparr>)" "\<not> DebugMode exCfg"
    "NewBotAPI exTg (BotToken exCfg) = Inr \<lparr>Token = ''token''\<rparr>"
    by (simp_all add: exCfg_def exTg_def)
  have d: "fst (snd (PushPost (exCfg\<lparr>DebugMode := True\<rparr>) exTg ?items initState)) = 0"
    "filter isSleep (trace (snd (snd (PushPost (exCfg\<lparr>DebugMode := True\<rparr>) exTg ?items initState)))) = []"
    unfolding PushPost_debug [OF a(1)] by simp_all
  from PushPost_live [OF a(2,3), of ?items]
  have "fst (snd (PushPost exCfg exTg ?items initState)) = 10
      \<and> filter isSleep (trace (snd (snd (PushPost exCfg exTg ?items initState))))
          = [Sleep (2 * time_Second)]"
    by auto
  with d show ?thesis by simp
qed

subsection \<open>Heartbeat and counter\<close>

text \<open>
  Claim C4, as amended. Outside debug mode, with the client built: when the channel is
  closed and drained, \<^verbatim>\<open>PushPost\<close> returns without a panic, the counter is the number of
  items processed, and the trace holds exactly one call of \<^verbatim>\<open>Send\<close> with the beat
  message if the counter is 0 and none if one item or more was processed; a heartbeat
  whose send fails is followed by the log line \<^verbatim>\<open>send beat err\<close> and nothing is
  propagated.
\<close>

theorem live_heartbeat_iff_counter_zero:
  assumes "\<not> DebugMode cfg" "NewBotAPI tg (BotToken cfg) = Inr b"
    and "PushPost cfg tg items initState = (p, cnt, s)"
  shows "p = None \<and> cnt = length items
       \<and> length (filter isBeat (trace s)) = (if cnt = 0 then 1 else 0)
       \<and> (cnt = 0 \<longrightarrow>
             trace s = [Send (Some b) (ChannelID cfg) beatMsg]
               @ (case SendResult tg 0 of
                    Some e \<Rightarrow> [Log (log_Printf (''send beat err: %v'' @ [CHR 0x0A]) [e])]
                  | None \<Rightarrow> []))"
proof -
  from PushPost_live [OF assms(1,2), of items] obtain ext where
    run: "PushPost cfg tg items initState =
           (None, length items,
            \<lparr>botAPI = Some b, onceLoader = True,
             trace = ext
               @ (if items = [] then
                    [Send (Some b) (ChannelID cfg) beatMsg]
                    @ (case SendResult tg 0 of
                         Some e \<Rightarrow> [Log (log_Printf (''send beat err: %v'' @ [CHR 0x0A]) [e])]
                       | None \<Rightarrow> [])
                  else [])\<rparr>)"
    and e0: "items = [] \<longrightarrow> ext = []"
    and sends: "filter isSend ext = map (\<lambda>feed. Send (Some b) (ChannelID cfg) (makeDisplayMsg feed)) items"
    by blast
  have nobeat: "filter isBeat ext = []" using sends by (rule filter_isBeat_sends)
  have p: "p = None" and c: "cnt = length items"
    and t: "trace s = ext
               @ (if items = [] then
                    [Send (Some b) (ChannelID cfg) beatMsg]
                    @ (case SendResult tg 0 of
                         Some e \<Rightarrow> [Log (log_Printf (''send beat err: %v'' @ [CHR 0x0A]) [e])]
                       | None \<Rightarrow> [])
                  else [])"
    using assms(3) unfolding run by auto
  have "length (filter isBeat (trace s)) = (if cnt = 0 then 1 else 0)"
    unfolding t c using nobeat by (simp split: option.splits)
  moreover have "cnt = 0 \<longrightarrow>
                 trace s = [Send (Some b) (ChannelID cfg) beatMsg]
                   @ (case SendResult tg 0 of
                        Some e \<Rightarrow> [Log (log_Printf (''send beat err: %v'' @ [CHR 0x0A]) [e])]
                      | None \<Rightarrow> [])"
    unfolding t c using e0 by simp
  ultimately show ?thesis using p c by simp
qed

theorem live_heartbeat_iff_counter_zero_witness:
  "\<not> DebugMode exCfg
   \<and> fst (PushPost exCfg (exTg\<lparr>SendResult := (\<lambda>n. Some ''timeout'')\<rparr>) [] initState) = None
   \<and> fst (snd (PushPost exCfg (exTg\<lparr>SendResult := (\<lambda>n. Some ''timeout'')\<rparr>) [] initState)) = 0
   \<and> trace (snd (snd (PushPost exCfg (exTg\<lparr>SendResult := (\<lambda>n. Some ''timeout'')\<rparr>) []
                         initState)))
       = [Send (Some \<lparr>Token = ''token''\<rparr>) 42 beatMsg,
          Log (''send beat err: timeout'' @ [CHR 0x0A])]
   \<and> fst (snd (PushPost exCfg exTg [exItem ''a'' None None] initState)) = 1
   \<and> length (filter isBeat
        (trace (snd (snd (PushPost exCfg exTg [exItem ''a'' None None] initState))))) = 0"
proof -
  let ?tg = "exTg\<lparr>SendResult := (\<lambda>n. Some ''timeout'')\<rparr>"
  let ?b = "\<lparr>Token = ''token''\<rparr>"
  have nb: "NewBotAPI ?tg (BotToken exCfg) = Inr ?b" "NewBotAPI exTg (BotToken exCfg) = Inr ?b"
    by (simp_all add: exCfg_def exTg_def)
  have nd: "\<not> DebugMode exCfg" by (simp add: exCfg_def)
  obtain p cnt s where r: "PushPost exCfg ?tg [] initState = (p, cnt, s)"
    by (metis prod_cases3)
  obtain p' cnt' s' where r': "PushPost exCfg exTg [exItem ''a'' None None] initState = (p', cnt', s')"
    by (metis prod_cases3)
  have c: "ChannelID exCfg = 42" by (simp add: exCfg_def)
  show ?thesis
    using live_heartbeat_iff_counter_zero [OF nd nb(1) r]
          live_heartbeat_iff_counter_zero [OF nd nb(2) r'] nd
    unfolding r r'
    by (simp add: c log_Printf_def HasSuffix_def)
qed

text \<open>
  The claim as stated, for every run, fails in debug mode: two items are processed
  (their lines are logged), yet the counter is 0, one heartbeat send is attempted, and
  its failure, the nil client, is not logged but ends the run in a panic.
\<close>

theorem debug_heartbeat_after_items_counterexample:
  "DebugMode (exCfg\<lparr>DebugMode := True\<rparr>)
   \<and> PushPost (exCfg\<lparr>DebugMode := True\<rparr>) exTg
        [exItem ''a'' None None, exItem ''b'' None None] initState =
       (Some NilPointerDereference, 0,
        \<lparr>botAPI = None, onceLoader = True,
         trace = [Log (''a https://example.org/a'' @ [CHR 0x0A]),
                  Log (''b https://example.org/b'' @ [CHR 0x0A]),
                  Send None 42 beatMsg]\<rparr>)
   \<and> length (filter isBeat
        (trace (snd (snd (PushPost (exCfg\<lparr>DebugMode := True\<rparr>) exTg
           [exItem ''a'' None None, exItem ''b'' None None] initState))))) = 1
   \<and> fst (PushPost (exCfg\<lparr>DebugMode := True\<rparr>) exTg
           [exItem ''a'' None None, exItem ''b'' None None] initState) \<noteq> None"
proof -
  have d: "DebugMode (exCfg\<lparr>DebugMode := True\<rparr>)" by simp
  show ?thesis
    unfolding PushPost_debug [OF d]
    by (simp add: exItem_def exCfg_def log_Printf_def HasSuffix_def)
qed

text \<open>
  Claim C6, as amended. Outside debug mode, with the client built, the counter at the
  end is the number of items processed, whatever \<^verbatim>\<open>Send\<close> answers for each: every item
  is sent exactly once, in the order of the channel; a send that fails (the \<open>i\<close>-th send
  answered with an error) leaves the line \<^verbatim>\<open>send tg err\<close> in the log, is not repeated,
  and the loop goes on to the next item without a panic.
\<close>

theorem live_run_counts_every_item:
  assumes "\<not> DebugMode cfg" "NewBotAPI tg (BotToken cfg) = Inr b"
    and "PushPost cfg tg items initState = (p, cnt, s)"
  shows "p = None \<and> cnt = length items
       \<and> filter (\<lambda>e. isSend e \<and> \<not> isBeat e) (trace s)
           = map (\<lambda>feed. Send (Some b) (ChannelID cfg) (makeDisplayMsg feed)) items
       \<and> (\<forall>i < length items. \<forall>e. SendResult tg i = Some e
             \<longrightarrow> Log (log_Printf (''send tg err: %v'' @ [CHR 0x0A]) [e]) \<in> set (trace s))"
proof -
  from PushPost_live [OF assms(1,2), of items] obtain ext where
    run: "PushPost cfg tg items initState =
           (None, length items,
            \<lparr>botAPI = Some b, onceLoader = True,
             trace = ext
               @ (if items = [] then
                    [Send (Some b) (ChannelID cfg) beatMsg]
                    @ (case SendResult tg 0 of
                         Some e \<Rightarrow> [Log (log_Printf (''send beat err: %v'' @ [CHR 0x0A]) [e])]
                       | None \<Rightarrow> [])
                  else [])\<rparr>)"
    and sends: "filter isSend ext = map (\<lambda>feed. Send (Some b) (ChannelID cfg) (makeDisplayMsg feed)) items"
    and errs: "\<forall>i < length items. \<forall>e. SendResult tg i = Some e
               \<longrightarrow> Log (log_Printf (''send tg err: %v'' @ [CHR 0x0A]) [e]) \<in> set ext"
    by blast
  have p: "p = None" and c: "cnt = length items"
    and t: "trace s = ext
               @ (if items = [] then
                    [Send (Some b) (ChannelID cfg) beatMsg]
                    @ (case SendResult tg 0 of
                         Some e \<Rightarrow> [Log (log_Printf (''send beat err: %v'' @ [CHR 0x0A]) [e])]
                       | None \<Rightarrow> [])
                  else [])"
    using assms(3) unfolding run by auto
  have f: "filter (\<lambda>e. isSend e \<and> \<not> isBeat e) (trace s)
             = map (\<lambda>feed. Send (Some b) (ChannelID cfg) (makeDisplayMsg feed)) items"
    unfolding t using filter_isBeat_sends(2) [OF sends] by (simp split: option.splits)
  have e: "\<forall>i < length items. \<forall>e. SendResult tg i = Some e
             \<longrightarrow> Log (log_Printf (''send tg err: %v'' @ [CHR 0x0A]) [e]) \<in> set (trace s)"
    unfolding t using errs by simp
  show ?thesis using p c f e by simp
qed

theorem live_run_counts_every_item_witness:
  "\<not> DebugMode exCfg
   \<and> fst (PushPost exCfg (exTg\<lparr>SendResult := (\<lambda>n. if n = 0 then Some ''timeout'' else None)\<rparr>)
          [exItem ''a'' None None, exItem ''b'' None None] initState) = None
   \<and> fst (snd (PushPost exCfg (exTg\<lparr>SendResult := (\<lambda>n. if n = 0 then Some ''timeout'' else None)\<rparr>)
          [exItem ''a'' None None, exItem ''b'' None None] initState)) = 2
   \<and> filter (\<lambda>e. isSend e \<and> \<not> isBeat e)
       (trace (snd (snd (PushPost exCfg
          (exTg\<lparr>SendResult := (\<lambda>n. if n = 0 then Some ''timeout'' else None)\<rparr>)
          [exItem ''a'' None None, exItem ''b'' None None] initState))))
       = [Send (Some \<lparr>Token = ''token''\<rparr>) 42 (''a'' @ [CHR 0x0A] @ ''https://example.org/a''),
          Send (Some \<lparr>Token = ''token''\<rparr>) 42 (''b'' @ [CHR 0x0A] @ ''https://example.org/b'')]
   \<and> Log (''send tg err: timeout'' @ [CHR 0x0A])
       \<in> set (trace (snd (snd (PushPost exCfg
          (exTg\<lparr>SendResult := (\<lambda>n. if n = 0 then Some ''timeout'' else None)\<rparr>)
          [exItem ''a'' None None, exItem ''b'' None None] initState))))"
proof -
  let ?tg = "exTg\<lparr>SendResult := (\<lambda>n. if n = 0 then Some ''timeout'' else None)\<rparr>"
  let ?b = "\<lparr>Token = ''token''\<rparr>"
  let ?items = "[exItem ''a'' None None, exItem ''b'' None None]"
  have nb: "NewBotAPI ?tg (BotToken exCfg) = Inr ?b"
    by (simp_all add: exCfg_def exTg_def)
  have nd: "\<not> DebugMode exCfg" by (simp add: exCfg_def)
  obtain p cnt s where r: "PushPost exCfg ?tg ?items initState = (p, cnt, s)"
    by (metis prod_cases3)
  have c: "ChannelID exCfg = 42" by (simp add: exCfg_def)
  have z: "0 < length ?items" by simp
  note th = live_run_counts_every_item [OF nd nb r]
  from th have errs: "\<forall>i < length ?items. \<forall>e. SendResult ?tg i = Some e
      \<longrightarrow> Log (log_Printf (''send tg err: %v'' @ [CHR 0x0A]) [e]) \<in> set (trace s)"
    by blast
  have "SendResult ?tg 0 = Some ''timeout''" by simp
  with errs z have "Log (log_Printf (''send tg err: %v'' @ [CHR 0x0A]) [''timeout'']) \<in> set (trace s)"
    by blast
  then have l: "Log (''send tg err: timeout'' @ [CHR 0x0A]) \<in> set (trace s)"
    by (simp add: log_Printf_def HasSuffix_def)
  show ?thesis
    using th nd l unfolding r
    by (simp add: c makeDisplayMsg_eq safeExtractName_def exItem_def)
qed

text \<open>
  The claim as stated, for every item the stage processes, fails in debug mode: three
  items are taken from the channel and logged, and the counter is 0, because
  \<^verbatim>\<open>continue\<close> leaves the loop body before \<^verbatim>\<open>cnt++\<close>.
\<close>

theorem debug_run_counts_no_item_counterexample:
  "DebugMode (exCfg\<lparr>DebugMode := True\<rparr>)
   \<and> filter isLog (trace (snd (snd (PushPost (exCfg\<lparr>DebugMode := True\<rparr>) exTg
        [exItem ''a'' None None, exItem ''b'' None None, exItem ''c'' None None] initState))))
       = [Log (''a https://example.org/a'' @ [CHR 0x0A]),
          Log (''b https://example.org/b'' @ [CHR 0x0A]),
          Log (''c https://example.org/c'' @ [CHR 0x0A])]
   \<and> fst (snd (PushPost (exCfg\<lparr>DebugMode := True\<rparr>) exTg
        [exItem ''a'' None None, exItem ''b'' None None, exItem ''c'' None None] initState)) = 0
   \<and> fst (snd (PushPost (exCfg\<lparr>DebugMode := True\<rparr>) exTg
        [exItem ''a'' None None, exItem ''b'' None None, exItem ''c'' None None] initState))
       \<noteq> length [exItem ''a'' None None, exItem ''b'' None None, exItem ''c'' None None]"
proof -
  have d: "DebugMode (exCfg\<lparr>DebugMode := True\<rparr>)" by simp
  show ?thesis
    unfolding PushPost_debug [OF d]
    by (simp add: exItem_def exCfg_def log_Printf_def HasSuffix_def)
qed

subsection \<open>Workers and main\<close>

lemma parse_err_line:
  "log_Printf ''parse url err: url=%s, %v'' [u, e]
     = (let s = ''parse url err: url='' @ u @ '', '' @ e
        in if HasSuffix s [CHR 0x0A] then s else s @ [CHR 0x0A])"
  by (simp add: log_Printf_def)

lemma GetPostInfo_parse_error:
  "GetPostInfo cfg now (Inl err) rss
     = Inr ([], [log_Printf ''parse url err: url=%s, %v'' [Url rss, err]])"
  by (simp add: GetPostInfo_def split: prod.splits)

lemma GetPostInfo_total: "\<exists>r. GetPostInfo cfg now outcome rss = Inr r"
proof (cases outcome)
  case (Inl err)
  then show ?thesis by (simp add: GetPostInfo_parse_error)
next
  case (Inr feed)
  then show ?thesis
    by (simp add: GetPostInfo_def GetPostInfo_items_filter split: prod.splits)
qed

lemma InfoComsumer_items:
  "\<exists>lg. InfoComsumer cfg fs
          = Inr (concat (map (\<lambda>f. fst (projr (GetPostInfo cfg (at f) (parsed f) (info f)))) fs), lg)"
proof (induction fs)
  case Nil
  show ?case by simp
next
  case (Cons f fs)
  obtain feeds lg where g: "GetPostInfo cfg (at f) (parsed f) (info f) = Inr (feeds, lg)"
    using GetPostInfo_total [of cfg "at f" "parsed f" "info f"] by auto
  from Cons.IH obtain lg' where
    "InfoComsumer cfg fs
       = Inr (concat (map (\<lambda>f. fst (projr (GetPostInfo cfg (at f) (parsed f) (info f)))) fs), lg')"
    by blast
  then show ?case using g by simp
qed

lemma merge_by_single:
  assumes "merge_by ws xss = Some ys" "w < length xss"
    and "\<forall>j < length xss. j \<noteq> w \<longrightarrow> xss ! j = []"
  shows "ys = xss ! w"
  using assms
proof (induction ws arbitrary: xss ys)
  case Nil
  then have "\<forall>xs \<in> set xss. xs = []" by (simp split: if_splits)
  then have "xss ! w = []" using Nil.prems(2) by simp
  moreover have "ys = []" using Nil.prems(1) by (simp split: if_splits)
  ultimately show ?case by simp
next
  case (Cons v ws)
  from Cons.prems(1) have v: "v < length xss" by (simp split: if_splits)
  from Cons.prems(1) v obtain x xs where x: "xss ! v = x # xs"
    by (cases "xss ! v") simp_all
  then have vw: "v = w" using Cons.prems(3) v by force
  from Cons.prems(1) v x obtain ys' where
    m: "merge_by ws (xss[v := xs]) = Some ys'" and y: "ys = x # ys'"
    by auto
  have "ys' = (xss[v := xs]) ! w"
    using m Cons.prems(2,3) unfolding vw by (intro Cons.IH) simp_all
  then show ?case using y x v unfolding vw by simp
qed


lemma main_tgChan:
  assumes "0 < GoroutineNum cfg" "main cfg tg pick order fetches = Some r"
  shows "\<exists>shares tgChan.
           deal pick (nat (GoroutineNum cfg)) fetches = Some shares
         \<and> merge_by order
              (map (\<lambda>sh. concat (map (\<lambda>f. fst (projr (GetPostInfo cfg (at f) (parsed f) (info f)))) sh))
                 shares) = Some tgChan
         \<and> r = Inr (tgChan, PushPost cfg tg tgChan initState)"
proof -
  let ?fetched = "\<lambda>f. fst (projr (GetPostInfo cfg (at f) (parsed f) (info f)))"
  from assms obtain shares where d: "deal pick (nat (GoroutineNum cfg)) fetches = Some shares"
    unfolding main_def by (auto split: option.splits)
  define outs where "outs = map (InfoComsumer cfg) shares"
  have o: "map (\<lambda>out. fst (projr out)) outs = map (\<lambda>sh. concat (map ?fetched sh)) shares"
  proof -
    have "fst (projr (InfoComsumer cfg sh)) = concat (map ?fetched sh)" for sh
      using InfoComsumer_items [of cfg sh] by auto
    then show ?thesis unfolding outs_def by simp
  qed
  have "\<not> isl (InfoComsumer cfg sh)" for sh
    using InfoComsumer_items [of cfg sh] by auto
  then have noisl: "filter isl outs = []" unfolding outs_def by (simp add: filter_empty_conv)
  have "main cfg tg pick order fetches
          = (case merge_by order (map (\<lambda>out. fst (projr out)) outs) of
               None \<Rightarrow> None
             | Some tgChan \<Rightarrow> Some (Inr (tgChan, PushPost cfg tg tgChan initState)))"
    using assms(1) d noisl [unfolded outs_def] by (simp add: main_def Let_def outs_def)
  with assms(2) obtain tgChan where
    m: "merge_by order (map (\<lambda>out. fst (projr out)) outs) = Some tgChan"
    and r: "r = Inr (tgChan, PushPost cfg tg tgChan initState)"
    by (auto split: option.splits)
  show ?thesis using d m r unfolding o by blast
qed

text \<open>
  Claim C9. A fetch whose parser fails logs the line \<^verbatim>\<open>parse url err: url=...\<close> with the
  subscription's URL and returns no item. In a run of \<^verbatim>\<open>main\<close> with at least one worker
  over two subscriptions, A whose parser fails and B whose fetch returns two items, in
  either order in the configuration, and for every way the workers share the
  descriptors and interleave on \<^verbatim>\<open>tgChan\<close>: the channel delivers exactly B's two items,
  in B's order, to \<^verbatim>\<open>PushPost\<close>; outside debug mode, with the client built, \<^verbatim>\<open>PushPost\<close>
  returns without a panic and its counter is 2.
\<close>

theorem failed_feed_contributes_nothing:
  assumes "0 < GoroutineNum cfg"
    and "parsed A = Inl err"
    and "GetPostInfo cfg (at B) (parsed B) (info B) = Inr ([i1, i2], lgB)"
    and "fetches = [A, B] \<or> fetches = [B, A]"
    and "main cfg tg pick order fetches = Some r"
  shows "GetPostInfo cfg (at A) (parsed A) (info A)
           = Inr ([], [log_Printf ''parse url err: url=%s, %v'' [Url (info A), err]])
       \<and> (\<exists>rest. log_Printf ''parse url err: url=%s, %v'' [Url (info A), err]
                    = ''parse url err: url='' @ Url (info A) @ rest)
       \<and> r = Inr ([i1, i2], PushPost cfg tg [i1, i2] initState)
       \<and> (\<not> DebugMode cfg \<and> NewBotAPI tg (BotToken cfg) = Inr b
            \<longrightarrow> fst (PushPost cfg tg [i1, i2] initState) = None
              \<and> fst (snd (PushPost cfg tg [i1, i2] initState)) = 2)"
proof -
  let ?fetched = "\<lambda>f. fst (projr (GetPostInfo cfg (at f) (parsed f) (info f)))"
  have ga: "GetPostInfo cfg (at A) (parsed A) (info A)
           = Inr ([], [log_Printf ''parse url err: url=%s, %v'' [Url (info A), err]])"
    unfolding assms(2) by (rule GetPostInfo_parse_error)
  have line: "\<exists>rest. log_Printf ''parse url err: url=%s, %v'' [Url (info A), err]
                    = ''parse url err: url='' @ Url (info A) @ rest"
    unfolding parse_err_line Let_def by (cases "HasSuffix (''parse url err: url='' @ Url (info A) @ '', '' @ err) [CHR 0x0A]") simp_all
  have fa: "?fetched A = []" using ga by simp
  have fb: "?fetched B = [i1, i2]" using assms(3) by simp
  define n where "n = nat (GoroutineNum cfg)"
  from main_tgChan [OF assms(1,5)] obtain shares tgChan where
    d: "deal pick n fetches = Some shares"
    and m: "merge_by order (map (\<lambda>sh. concat (map ?fetched sh)) shares) = Some tgChan"
    and r: "r = Inr (tgChan, PushPost cfg tg tgChan initState)"
    unfolding n_def by blast
  from d have lp: "length pick = length fetches" and pw: "\<forall>w \<in> set pick. w < n"
    and sh: "shares = map (\<lambda>w. map fst (filter (\<lambda>(x, j). j = w) (zip fetches pick))) [0..<n]"
    unfolding deal_def by (auto split: if_splits)
  from lp assms(4) obtain p0 p1 where pick: "pick = [p0, p1]"
    by (cases pick; cases "tl pick"; cases "tl (tl pick)") auto
  define wB where "wB = (if fetches = [A, B] then p1 else p0)"
  have wBn: "wB < n" using pw unfolding pick wB_def by simp
  have xs: "map (\<lambda>sh. concat (map ?fetched sh)) shares
              = map (\<lambda>w. if w = wB then [i1, i2] else []) [0..<n]"
  proof (cases "fetches = [A, B]")
    case True
    have "concat (map ?fetched (map fst (filter (\<lambda>(x, j). j = w) (zip [A, B] [p0, p1]))))
            = (if w = p1 then [i1, i2] else [])" for w
      using fa fb by (cases "p0 = w"; cases "p1 = w") auto
    then show ?thesis unfolding sh pick wB_def True by simp
  next
    case False
    then have f: "fetches = [B, A]" using assms(4) by simp
    have "concat (map ?fetched (map fst (filter (\<lambda>(x, j). j = w) (zip [B, A] [p0, p1]))))
            = (if w = p0 then [i1, i2] else [])" for w
      using fa fb by (cases "p0 = w"; cases "p1 = w") auto
    then show ?thesis unfolding sh pick wB_def using False f by simp
  qed
  have "tgChan = map (\<lambda>w. if w = wB then [i1, i2] else []) [0..<n] ! wB"
    using m unfolding xs by (rule merge_by_single) (use wBn in simp_all)
  then have c: "tgChan = [i1, i2]" using wBn by simp
  have live: "\<not> DebugMode cfg \<and> NewBotAPI tg (BotToken cfg) = Inr b
            \<longrightarrow> fst (PushPost cfg tg [i1, i2] initState) = None
              \<and> fst (snd (PushPost cfg tg [i1, i2] initState)) = 2"
  proof
    assume a: "\<not> DebugMode cfg \<and> NewBotAPI tg (BotToken cfg) = Inr b"
    then show "fst (PushPost cfg tg [i1, i2] initState) = None
              \<and> fst (snd (PushPost cfg tg [i1, i2] initState)) = 2"
      using PushPost_live [of cfg tg b "[i1, i2]"] by auto
  qed
  show ?thesis using ga line r live unfolding c by blast
qed

theorem failed_feed_contributes_nothing_witness:
  "0 < GoroutineNum exCfg \<and> parsed exFailed = Inl ''timeout''
   \<and> GetPostInfo exCfg (at exGood) (parsed exGood) (info exGood)
       = Inr ([exItem ''one'' (Some \<lparr>sec = 1699990000, nsec = 0\<rparr>) None,
               exItem ''two'' None (Some \<lparr>sec = 1699995000, nsec = 0\<rparr>)], [])
   \<and> GetPostInfo exCfg (at exFailed) (parsed exFailed) (info exFailed)
       = Inr ([], [''parse url err: url=https://example.org/a.xml, timeout'' @ [CHR 0x0A]])
   \<and> main exCfg exTg [0, 3] [3, 3] [exFailed, exGood]
       = Some (Inr ([exItem ''one'' (Some \<lparr>sec = 1699990000, nsec = 0\<rparr>) None,
                     exItem ''two'' None (Some \<lparr>sec = 1699995000, nsec = 0\<rparr>)],
                    PushPost exCfg exTg
                      [exItem ''one'' (Some \<lparr>sec = 1699990000, nsec = 0\<rparr>) None,
                       exItem ''two'' None (Some \<lparr>sec = 1699995000, nsec = 0\<rparr>)] initState))
   \<and> fst (snd (PushPost exCfg exTg
                 [exItem ''one'' (Some \<lparr>sec = 1699990000, nsec = 0\<rparr>) None,
                  exItem ''two'' None (Some \<lparr>sec = 1699995000, nsec = 0\<rparr>)] initState)) = 2"
proof -
  let ?one = "exItem ''one'' (Some \<lparr>sec = 1699990000, nsec = 0\<rparr>) None"
  let ?two = "exItem ''two'' None (Some \<lparr>sec = 1699995000, nsec = 0\<rparr>)"
  have n: "0 < GoroutineNum exCfg" "nat (GoroutineNum exCfg) = 5" by (simp_all add: exCfg_def)
  have pa: "parsed exFailed = Inl ''timeout''" by (simp add: exFailed_def)
  have w: "GetPostInfo_window exCfg exNow = (1699988400, 1699999200)"
    by (simp add: window_eval exCfg_def exNow_def)
  have d: "\<not> DebugMode exCfg" by (simp add: exCfg_def)
  have gb: "GetPostInfo exCfg (at exGood) (parsed exGood) (info exGood) = Inr ([?one, ?two], [])"
    unfolding GetPostInfo_def exGood_def
    by (simp add: w getDatetime_pair debugInfof_def d exItem_def IsZero_def Unix_def
          unixToInternal_def)
  have ga: "GetPostInfo exCfg (at exFailed) (parsed exFailed) (info exFailed)
              = Inr ([], [''parse url err: url=https://example.org/a.xml, timeout'' @ [CHR 0x0A]])"
    by (simp add: exFailed_def GetPostInfo_parse_error parse_err_line HasSuffix_def exRss_def)
  have dl: "deal [0, 3] 5 [exFailed, exGood] = Some [[exFailed], [], [], [exGood], []]"
    by (simp add: deal_def upt_rec)
  have m: "main exCfg exTg [0, 3] [3, 3] [exFailed, exGood]
             = Some (Inr ([?one, ?two], PushPost exCfg exTg [?one, ?two] initState))"
    using n by (simp add: main_def dl ga gb)
  have b: "\<not> DebugMode exCfg \<and> NewBotAPI exTg (BotToken exCfg) = Inr \<lparr>Token = ''token''\<rparr>"
    by (simp add: exCfg_def exTg_def)
  show ?thesis
    using failed_feed_contributes_nothing [OF n(1) pa gb _ m, where b = "\<lparr>Token = ''token''\<rparr>"]
      n pa gb ga m b
    by simp
qed

end
